(* ===== verification/Prelude.thy ===== *)
theory Prelude
  imports Main "HOL-Library.Word"
begin

unbundle bit_operations_syntax

text \<open>
  Shared by every component: the machine-word types, polling loops over a volatile read
  (\<open>spin\<close>) with the locale that gives their total correctness, and byte stores with the locale
  that gives the contents of a region after a sequence of byte writes.
\<close>

section \<open>Machine words\<close>

type_synonym u8 = "8 word"
type_synonym u32 = "32 word"
type_synonym u64 = "64 word"

text \<open>The bytes of a text.\<close>

definition ascii :: "string \<Rightarrow> u8 list" where
  "ascii cs = map of_char cs"

named_theorems region_simps "contents of a byte region after a sequence of writes"
named_theorems wp_simps "weakest preconditions of the first stage boot loader's operations"

lemma unat_less_exp [simp]: "unat (w :: 'a::len word) < 2 ^ LENGTH('a)"
  by (rule unsigned_less)

lemma unat_u32_less: "unat (w :: u32) < 4294967296"
  using unat_less_exp [of w] by simp

lemma unat_u64_less: "unat (w :: u64) < 18446744073709551616"
  using unat_less_exp [of w] by simp

lemma unat_plus_one:
  fixes i n :: "'a::len word"
  assumes "i < n"
  shows "unat (i + 1) = Suc (unat i)"
proof -
  have "Suc (unat i) < 2 ^ LENGTH('a)"
    using assms unat_less_exp [of n] unfolding word_less_nat_alt by linarith
  then show ?thesis by (simp add: unat_word_ariths)
qed

lemma of_nat_unat_ucast: "(of_nat (unat w) :: 'b::len word) = ucast (w :: 'a::len word)"
  by simp

section \<open>Polling loops\<close>

text \<open>
  \<open>while (!ready(*reg)) ;\<close> over a volatile location. Every read may change the world, since the
  other side of the register runs between two reads. \<open>None\<close>: the loop never ends.
\<close>

partial_function (option) spin :: "('w \<Rightarrow> 'v \<times> 'w) \<Rightarrow> ('v \<Rightarrow> bool) \<Rightarrow> 'w \<Rightarrow> ('v \<times> 'w) option" where
  "spin rd ready w = (case rd w of (v, w') \<Rightarrow> if ready v then Some (v, w') else spin rd ready w')"

text \<open>Induction over the iterations of a polling loop that returned.\<close>

lemma spin_induct [consumes 1, case_names ready wait]:
  assumes ret: "spin rd ready w = Some r"
    and now: "\<And>w v w'. rd w = (v, w') \<Longrightarrow> ready v \<Longrightarrow> P w (v, w')"
    and later: "\<And>w v w' r. rd w = (v, w') \<Longrightarrow> \<not> ready v \<Longrightarrow> P w' r \<Longrightarrow> P w r"
  shows "P w r"
proof -
  let ?Q = "\<lambda>rd0 ready0 w r. rd0 = rd \<longrightarrow> ready0 = ready \<longrightarrow> P w r"
  have "?Q rd ready w r"
  proof (rule spin.raw_induct [where P = ?Q, OF _ ret], intro impI)
    fix f rd0 ready0 w r
    assume IH: "\<And>rd0 ready0 w r. f rd0 ready0 w = Some r \<Longrightarrow> ?Q rd0 ready0 w r"
      and eq: "(case rd0 w of (v, w') \<Rightarrow> if ready0 v then Some (v, w') else f rd0 ready0 w') = Some r"
      and fixed: "rd0 = rd" "ready0 = ready"
    obtain v w' where rd: "rd w = (v, w')" by fastforce
    show "P w r"
    proof (cases "ready v")
      case True
      with eq fixed rd now [OF rd] show ?thesis by simp
    next
      case False
      with eq fixed rd have "f rd ready w' = Some r" by simp
      with IH [of rd ready w' r] have "P w' r" by simp
      then show ?thesis by (rule later [OF rd False])
    qed
  qed
  then show ?thesis by simp
qed

text \<open>Counting the reads of a polling loop in a log.\<close>

lemma spin_logged:
  assumes "spin rd ready d = Some r"
  shows "\<exists>j. spin (\<lambda>(d, l). case rd d of (v, d') \<Rightarrow> (v, (d', l @ [e]))) ready (d, l) =
     Some (fst r, (snd r, l @ replicate (Suc j) e))"
  using assms
proof (induction arbitrary: l rule: spin_induct)
  case (ready d v d')
  then show ?case by (intro exI [of _ 0]) (auto simp: spin.simps [of _ _ "(d, l)"])
next
  case (wait d v d' r)
  from wait(3) [of "l @ [e]"] obtain j where
    "spin (\<lambda>(d, l). case rd d of (v, d') \<Rightarrow> (v, (d', l @ [e]))) ready (d', l @ [e]) =
       Some (fst r, (snd r, (l @ [e]) @ replicate (Suc j) e))" by blast
  with wait(1,2) show ?case by (intro exI [of _ "Suc j"]) (simp add: spin.simps [of _ _ "(d, l)"])
qed
text \<open>
  What a client needs of the other side of a polled register: under the invariant each read
  that is not yet ready brings the world nearer to readiness.
\<close>

locale poller =
  fixes rd :: "'w \<Rightarrow> 'v \<times> 'w"
    and ready :: "'v \<Rightarrow> bool"
    and good :: "'w \<Rightarrow> bool"
    and variant :: "'w \<Rightarrow> nat"
  assumes keep: "good w \<Longrightarrow> rd w = (v, w') \<Longrightarrow> \<not> ready v \<Longrightarrow> good w'"
    and progress: "good w \<Longrightarrow> rd w = (v, w') \<Longrightarrow> \<not> ready v \<Longrightarrow> variant w' < variant w"
begin

lemma spin_returns:
  assumes "good w"
  shows "\<exists>w0 v w'. spin rd ready w = Some (v, w') \<and> good w0 \<and> rd w0 = (v, w') \<and> ready v"
  using assms
proof (induction "variant w" arbitrary: w rule: less_induct)
  case less
  obtain v w' where rd: "rd w = (v, w')" by fastforce
  show ?case
  proof (cases "ready v")
    case True
    with rd less.prems show ?thesis by (auto simp: spin.simps [of _ _ w])
  next
    case False
    with rd less.prems have "good w'" and "variant w' < variant w"
      by (auto intro: keep progress)
    from less.hyps [OF this(2,1)] False rd show ?thesis
      by (simp add: spin.simps [of _ _ w])
  qed
qed

text \<open>A property that every unsuccessful read keeps still holds at the successful one.\<close>

lemma spin_ends:
  assumes "good w" and "P w"
    and step: "\<And>u v u'. good u \<Longrightarrow> P u \<Longrightarrow> rd u = (v, u') \<Longrightarrow> \<not> ready v \<Longrightarrow> P u'"
  shows "\<exists>w0 v w'. spin rd ready w = Some (v, w') \<and> good w0 \<and> P w0 \<and> rd w0 = (v, w') \<and> ready v"
  using assms(1,2)
proof (induction "variant w" arbitrary: w rule: less_induct)
  case less
  obtain v w' where rd: "rd w = (v, w')" by fastforce
  show ?case
  proof (cases "ready v")
    case True
    with rd less.prems show ?thesis by (auto simp: spin.simps [of _ _ w])
  next
    case False
    with rd less.prems have "good w'" and "variant w' < variant w" and "P w'"
      by (auto intro: keep progress step)
    from less.hyps [OF this(2,1,3)] False rd show ?thesis
      by (simp add: spin.simps [of _ _ w])
  qed
qed

end

section \<open>Byte stores\<close>

text \<open>Writing the bytes \<open>xs\<close> one after the other from address \<open>a\<close> up.\<close>

fun put_bytes :: "('a::len word \<Rightarrow> 'v \<Rightarrow> 'm \<Rightarrow> 'm) \<Rightarrow> 'a word \<Rightarrow> 'v list \<Rightarrow> 'm \<Rightarrow> 'm" where
  "put_bytes st a [] m = m"
| "put_bytes st a (x # xs) m = put_bytes st (a + 1) xs (st a x m)"

lemma put_bytes_append [region_simps]:
  "put_bytes st a (xs @ ys) m = put_bytes st (a + of_nat (length xs)) ys (put_bytes st a xs m)"
  by (induction xs arbitrary: a m) (simp_all add: add.assoc)

lemma unat_diff_Suc:
  fixes a b :: "'a::len word"
  assumes "b \<noteq> a"
  shows "unat (b - a) = Suc (unat (b - (a + 1)))"
proof -
  have nz: "b - a \<noteq> 0" using assms by simp
  then have "unat (b - a - 1) = unat (b - a) - 1" by (rule unat_minus_one)
  moreover have "0 < unat (b - a)" using nz by (simp add: unat_gt_0)
  moreover have "b - a - 1 = b - (a + 1)" by (simp add: algebra_simps)
  ultimately show ?thesis by simp
qed

text \<open>
  Copying \<open>k\<close> bytes one at a time, upwards from the low end or downwards from the high end.
\<close>

fun copy_up :: "('m \<Rightarrow> 'a::len word \<Rightarrow> 'v) \<Rightarrow> ('a word \<Rightarrow> 'v \<Rightarrow> 'm \<Rightarrow> 'm) \<Rightarrow>
    nat \<Rightarrow> 'a word \<Rightarrow> 'a word \<Rightarrow> 'm \<Rightarrow> 'm" where
  "copy_up ld st 0 d s m = m"
| "copy_up ld st (Suc k) d s m = copy_up ld st k (d + 1) (s + 1) (st d (ld m s) m)"

fun copy_down :: "('m \<Rightarrow> 'a::len word \<Rightarrow> 'v) \<Rightarrow> ('a word \<Rightarrow> 'v \<Rightarrow> 'm \<Rightarrow> 'm) \<Rightarrow>
    nat \<Rightarrow> 'a word \<Rightarrow> 'a word \<Rightarrow> 'm \<Rightarrow> 'm" where
  "copy_down ld st 0 d s m = m"
| "copy_down ld st (Suc k) d s m =
     copy_down ld st k d s (st (d + of_nat k) (ld m (s + of_nat k)) m)"

lemma copy_up_add:
  "copy_up ld st (j + k) d s m =
     copy_up ld st k (d + of_nat j) (s + of_nat j) (copy_up ld st j d s m)"
  by (induction j arbitrary: d s m) (simp_all add: add.assoc)

lemma unat_less_Suc_diff:
  fixes x d :: "'a::len word"
  assumes "k < 2 ^ LENGTH('a)"
  shows "unat (x - d) < Suc k \<longleftrightarrow> unat (x - d) < k \<or> x = d + of_nat k"
proof -
  have "unat (x - d) = k \<longleftrightarrow> x - d = of_nat k"
  proof
    assume "unat (x - d) = k"
    then show "x - d = of_nat k" by (metis of_nat_unat ucast_id)
  next
    assume "x - d = of_nat k"
    with assms show "unat (x - d) = k" by (simp add: unat_of_nat)
  qed
  also have "\<dots> \<longleftrightarrow> x = d + of_nat k"
    by (auto simp: algebra_simps)
  finally show ?thesis by (auto simp: less_Suc_eq)
qed

locale byte_store =
  fixes ld :: "'m \<Rightarrow> 'a::len word \<Rightarrow> 'v"
    and st :: "'a word \<Rightarrow> 'v \<Rightarrow> 'm \<Rightarrow> 'm"
  assumes ld_st: "ld (st a v m) b = (if b = a then v else ld m b)"
begin

text \<open>
  The contents of any address after the region is written; the region may wrap around the
  end of the address space.
\<close>

lemma ld_put_bytes:
  "length xs \<le> 2 ^ LENGTH('a) \<Longrightarrow>
   ld (put_bytes st a xs m) b = (if unat (b - a) < length xs then xs ! unat (b - a) else ld m b)"
proof (induction xs arbitrary: a m)
  case Nil
  then show ?case by simp
next
  case (Cons x xs)
  show ?case
  proof (cases "b = a")
    case True
    have "unat (b - (a + 1)) = unat (- 1 :: 'a word)"
      using True by simp
    also have "\<dots> = 2 ^ LENGTH('a) - 1"
      by (simp add: unsigned_minus_1_eq_mask mask_eq_exp_minus_1)
    finally have "\<not> unat (b - (a + 1)) < length xs"
      using Cons.prems by simp
    then show ?thesis
      using Cons True by (simp add: ld_st)
  next
    case False
    then show ?thesis
      using Cons unat_diff_Suc [OF False] by (simp add: ld_st)
  qed
qed

lemma ld_put_bytes_outside:
  "length xs \<le> 2 ^ LENGTH('a) \<Longrightarrow> length xs \<le> unat (b - a) \<Longrightarrow> ld (put_bytes st a xs m) b = ld m b"
  by (simp add: ld_put_bytes)

text \<open>
  Copying upwards gives the destination the old contents of the source when no source byte is
  overwritten before it is read: the destination starts at the source, or not within the next
  \<open>k\<close> bytes above it (modulo the size of the address space). Dually for copying downwards.
\<close>

lemma ld_copy_up:
  assumes "k \<le> 2 ^ LENGTH('a)" and "d = s \<or> k \<le> unat (d - s)"
  shows "ld (copy_up ld st k d s m) x =
     (if unat (x - d) < k then ld m (s + (x - d)) else ld m x)"
  using assms
proof (induction k arbitrary: d s m)
  case 0
  then show ?case by simp
next
  case (Suc k)
  from Suc.prems have IH: "ld (copy_up ld st k (d + 1) (s + 1) (st d (ld m s) m)) x =
     (if unat (x - (d + 1)) < k then ld (st d (ld m s) m) (s + 1 + (x - (d + 1)))
      else ld (st d (ld m s) m) x)"
    by (intro Suc.IH) auto
  have src: "s + 1 + (x - (d + 1)) = s + (x - d)" by simp
  show ?case
  proof (cases "x = d")
    case True
    have "unat (x - (d + 1)) = 2 ^ LENGTH('a) - 1"
      using True by (simp add: unsigned_minus_1_eq_mask mask_eq_exp_minus_1)
    with True Suc.prems(1) show ?thesis unfolding copy_up.simps IH by (simp add: ld_st)
  next
    case False
    have "s + (x - d) \<noteq> d" if "unat (x - (d + 1)) < k" "d \<noteq> s"
    proof
      assume "s + (x - d) = d"
      then have "x - d = d - s" by (simp add: algebra_simps)
      with that Suc.prems(2) unat_diff_Suc [OF False] show False by simp
    qed
    with False show ?thesis
      unfolding copy_up.simps IH src unat_diff_Suc [OF False]
      by (cases "d = s") (simp_all add: ld_st)
  qed
qed

lemma ld_copy_down:
  assumes "k \<le> 2 ^ LENGTH('a)" and "d = s \<or> k \<le> unat (s - d)"
  shows "ld (copy_down ld st k d s m) x =
     (if unat (x - d) < k then ld m (s + (x - d)) else ld m x)"
  using assms
proof (induction k arbitrary: m)
  case 0
  then show ?case by simp
next
  case (Suc k)
  let ?m = "st (d + of_nat k) (ld m (s + of_nat k)) m"
  from Suc.prems have IH: "ld (copy_down ld st k d s ?m) x =
     (if unat (x - d) < k then ld ?m (s + (x - d)) else ld ?m x)"
    by (intro Suc.IH) auto
  have k: "k < 2 ^ LENGTH('a)" using Suc.prems(1) by simp
  have "s + (x - d) \<noteq> d + of_nat k" if lt: "unat (x - d) < k" and ne: "d \<noteq> s"
  proof
    assume eq: "s + (x - d) = d + of_nat k"
    then have "s - d = of_nat k - (x - d)" by (simp add: algebra_simps)
    also have "\<dots> = of_nat (k - unat (x - d))"
      using lt by (simp add: of_nat_diff)
    finally have "unat (s - d) \<le> k - unat (x - d)"
      using k by (simp add: unat_of_nat)
    with Suc.prems(2) ne show False by simp
  qed
  moreover have "x \<noteq> d + of_nat k" if "unat (x - d) < k"
    using that k by (auto simp: unat_of_nat)
  ultimately show ?case
    unfolding copy_down.simps IH unat_less_Suc_diff [OF k]
    by (cases "d = s") (auto simp: ld_st)
qed

end

end
