(* ===== verification/KString.thy ===== *)
theory KString
  imports Prelude
begin

text \<open>
  The kernel's \<open>memset\<close> and \<open>memmove\<close> (\<open>kernel/string.c\<close> of \<open>xv6/0001-xv6-rocket-port.patch\<close>),
  which move eight bytes per iteration. Memory is a byte map over 64-bit addresses, little endian;
  a doubleword access that is not 8-byte aligned traps (to M-mode on this core), which the result
  type makes visible. \<open>None\<close> is a loop that does not end.
\<close>

section \<open>Kernel memory\<close>

type_synonym kmem = "u64 \<Rightarrow> u8"

datatype trap = Misaligned u64

definition ld8 :: "kmem \<Rightarrow> u64 \<Rightarrow> u8" where
  "ld8 m a = m a"

definition st8 :: "u64 \<Rightarrow> u8 \<Rightarrow> kmem \<Rightarrow> kmem" where
  "st8 a v m = m(a := v)"

interpretation kmem: byte_store ld8 st8
  by unfold_locales (simp add: ld8_def st8_def)

definition bytes64 :: "u64 \<Rightarrow> u8 list" where
  "bytes64 w = map (\<lambda>k. ucast (drop_bit (8 * k) w)) [0, 1, 2, 3, 4, 5, 6, 7]"

fun join_bytes :: "u8 list \<Rightarrow> u64" where
  "join_bytes [] = 0"
| "join_bytes (b # bs) = ucast b OR push_bit 8 (join_bytes bs)"

definition store64 :: "u64 \<Rightarrow> u64 \<Rightarrow> kmem \<Rightarrow> trap + kmem" where
  "store64 a w m = (if a AND 7 \<noteq> 0 then Inl (Misaligned a) else Inr (put_bytes st8 a (bytes64 w) m))"

text \<open>The eight bytes at \<open>a\<close>, lowest address first.\<close>

definition read8 :: "kmem \<Rightarrow> u64 \<Rightarrow> u8 list" where
  "read8 m a = map (\<lambda>k. ld8 m (a + of_nat k)) [0, 1, 2, 3, 4, 5, 6, 7]"

definition load64 :: "u64 \<Rightarrow> kmem \<Rightarrow> trap + u64" where
  "load64 a m = (if a AND 7 \<noteq> 0 then Inl (Misaligned a) else Inr (join_bytes (read8 m a)))"

section \<open>memset\<close>

text \<open>\<open>while ((((uint64)cdst + i) & 7) != 0) { cdst[i] = c; i++; }\<close>\<close>

partial_function (option) memset_head :: "u64 \<Rightarrow> u8 \<Rightarrow> u32 \<Rightarrow> kmem \<Rightarrow> (u32 \<times> kmem) option" where
  "memset_head cdst c i m =
     (if (cdst + ucast i) AND 7 \<noteq> 0 then memset_head cdst c (i + 1) (st8 (cdst + ucast i) c m)
      else Some (i, m))"

text \<open>The byte \<open>c\<close> in every byte of a doubleword.\<close>

definition splat :: "u8 \<Rightarrow> u64" where
  "splat c = (let w = ucast c; w = w OR push_bit 8 w; w = w OR push_bit 16 w
              in w OR push_bit 32 w)"

text \<open>\<open>for (; i + 8 <= n; i += 8) *(uint64 *)(cdst + i) = word;\<close> with \<open>uint i, n\<close>.\<close>

partial_function (option) memset_words ::
  "u64 \<Rightarrow> u64 \<Rightarrow> u32 \<Rightarrow> u32 \<Rightarrow> kmem \<Rightarrow> (trap + u32 \<times> kmem) option" where
  "memset_words cdst word n i m =
     (if i + 8 \<le> n then
        (case store64 (cdst + ucast i) word m of
           Inl t \<Rightarrow> Some (Inl t)
         | Inr m' \<Rightarrow> memset_words cdst word n (i + 8) m')
      else Some (Inr (i, m)))"

text \<open>\<open>for (; i < n; i++) cdst[i] = c;\<close>\<close>

function memset_tail :: "u64 \<Rightarrow> u8 \<Rightarrow> u32 \<Rightarrow> u32 \<Rightarrow> kmem \<Rightarrow> kmem" where
  "memset_tail cdst c n i m =
     (if i < n then memset_tail cdst c n (i + 1) (st8 (cdst + ucast i) c m) else m)"
  by pat_completeness auto
termination
  by (relation "measure (\<lambda>(cdst, c, n, i, m). unat n - unat i)")
     (auto simp: unat_plus_one word_less_nat_alt)

declare memset_tail.simps [simp del]

definition memset :: "u64 \<Rightarrow> u32 \<Rightarrow> u32 \<Rightarrow> kmem \<Rightarrow> (trap + u64 \<times> kmem) option" where
  "memset dst c n m =
     (let b = ucast c in
      if 16 \<le> n then
        (case memset_head dst b 0 m of
           None \<Rightarrow> None
         | Some (i, m1) \<Rightarrow>
           (case memset_words dst (splat b) n i m1 of
              None \<Rightarrow> None
            | Some (Inl t) \<Rightarrow> Some (Inl t)
            | Some (Inr (i', m2)) \<Rightarrow> Some (Inr (dst, memset_tail dst b n i' m2))))
      else Some (Inr (dst, memset_tail dst b n 0 m)))"

section \<open>memmove\<close>

text \<open>\<open>while (n-- > 0) *--d = *--s;\<close> from the ends of both regions.\<close>

function memmove_back :: "u64 \<Rightarrow> u64 \<Rightarrow> u32 \<Rightarrow> kmem \<Rightarrow> kmem" where
  "memmove_back d s n m =
     (if n = 0 then m else memmove_back (d - 1) (s - 1) (n - 1) (st8 (d - 1) (ld8 m (s - 1)) m))"
  by pat_completeness auto
termination
  by (relation "measure (\<lambda>(d, s, n, m). unat n)") (auto simp: unat_minus_one unat_gt_0)

declare memmove_back.simps [simp del]

text \<open>\<open>while ((((uint64)d) & 7) != 0 && n > 0) { *d++ = *s++; n--; }\<close>\<close>

function memmove_head :: "u64 \<Rightarrow> u64 \<Rightarrow> u32 \<Rightarrow> kmem \<Rightarrow> u64 \<times> u64 \<times> u32 \<times> kmem" where
  "memmove_head d s n m =
     (if d AND 7 \<noteq> 0 \<and> 0 < n then memmove_head (d + 1) (s + 1) (n - 1) (st8 d (ld8 m s) m)
      else (d, s, n, m))"
  by pat_completeness auto
termination
  by (relation "measure (\<lambda>(d, s, n, m). unat n)")
     (auto simp: unat_minus_one unat_gt_0 word_neq_0_conv)

declare memmove_head.simps [simp del]

text \<open>\<open>while (n >= 8) { *(uint64 *)d = *(const uint64 *)s; d += 8; s += 8; n -= 8; }\<close>\<close>

function memmove_words :: "u64 \<Rightarrow> u64 \<Rightarrow> u32 \<Rightarrow> kmem \<Rightarrow> trap + u64 \<times> u64 \<times> u32 \<times> kmem" where
  "memmove_words d s n m =
     (if 8 \<le> n then
        (case load64 s m of
           Inl t \<Rightarrow> Inl t
         | Inr w \<Rightarrow>
           (case store64 d w m of
              Inl t \<Rightarrow> Inl t
            | Inr m' \<Rightarrow> memmove_words (d + 8) (s + 8) (n - 8) m'))
      else Inr (d, s, n, m))"
  by pat_completeness auto
termination
  by (relation "measure (\<lambda>(d, s, n, m). unat n)")
     (auto simp: word_le_nat_alt unat_sub)

declare memmove_words.simps [simp del]

text \<open>\<open>while (n-- > 0) *d++ = *s++;\<close>\<close>

function memmove_tail :: "u64 \<Rightarrow> u64 \<Rightarrow> u32 \<Rightarrow> kmem \<Rightarrow> kmem" where
  "memmove_tail d s n m =
     (if n = 0 then m else memmove_tail (d + 1) (s + 1) (n - 1) (st8 d (ld8 m s) m))"
  by pat_completeness auto
termination
  by (relation "measure (\<lambda>(d, s, n, m). unat n)") (auto simp: unat_minus_one unat_gt_0)

declare memmove_tail.simps [simp del]

definition memmove :: "u64 \<Rightarrow> u64 \<Rightarrow> u32 \<Rightarrow> kmem \<Rightarrow> trap + u64 \<times> kmem" where
  "memmove dst src n m =
     (if src < dst \<and> src + ucast n > dst then
        Inr (dst, memmove_back (dst + ucast n) (src + ucast n) n m)
      else if 16 \<le> n \<and> (src XOR dst) AND 7 = 0 then
        (case memmove_head dst src n m of (d, s, n1, m1) \<Rightarrow>
         case memmove_words d s n1 m1 of
           Inl t \<Rightarrow> Inl t
         | Inr (d', s', n2, m2) \<Rightarrow> Inr (dst, memmove_tail d' s' n2 m2))
      else Inr (dst, memmove_tail dst src n m))"

section \<open>Alignment and doublewords\<close>

lemma and7_mod: "(x :: 'a::len word) AND 7 = take_bit 3 x"
  by (simp add: take_bit_eq_mask mask_eq_exp_minus_1)

lemma and7_unat: "unat ((x :: 'a::len word) AND 7) = unat x mod 8"
  unfolding and7_mod unsigned_take_bit_eq by (simp add: take_bit_eq_mod)

lemma and7_eq_iff: "(x :: 'a::len word) AND 7 = y AND 7 \<longleftrightarrow> unat x mod 8 = unat y mod 8"
  by (metis and7_unat word_unat_eq_iff)

lemma and7_add:
  fixes d x y :: u64
  assumes "x AND 7 = y AND 7"
  shows "(d + x) AND 7 = (d + y) AND 7"
proof -
  have "(unat d + unat x) mod 18446744073709551616 mod 8 = (unat d + unat x) mod 8" for x :: u64
    by (rule mod_mod_cancel) simp
  moreover have "(unat d + unat x) mod 8 = (unat d + unat y) mod 8"
    using assms unfolding and7_eq_iff by (intro mod_add_cong) simp_all
  ultimately show ?thesis
    by (simp add: and7_eq_iff unat_word_ariths)
qed

lemma aligned_step: "(d + ucast ((i :: u32) + 8)) AND (7 :: u64) = (d + ucast i) AND 7"
proof (rule and7_add)
  have "(unat i + 8) mod 4294967296 mod 8 = (unat i + 8) mod 8"
    by (rule mod_mod_cancel) simp
  moreover have "unat i < 4294967296" using unsigned_less [of i] by simp
  ultimately show "ucast (i + 8) AND (7 :: u64) = ucast i AND 7"
    by (simp add: and7_eq_iff unsigned_ucast_eq take_bit_eq_mod unat_word_ariths)
qed

lemma bit_double:
  fixes w :: u64
  assumes w: "\<And>n. bit w n \<longleftrightarrow> n < L \<and> bit c (n mod 8)" and L: "8 dvd L" "2 * L \<le> 64"
  shows "bit (w OR push_bit L w) n \<longleftrightarrow> n < 2 * L \<and> bit c (n mod 8)"
proof -
  have "(n - L) mod 8 = n mod 8" if le: "L \<le> n"
  proof -
    obtain k where "L = 8 * k" using L(1) by (auto elim: dvdE)
    moreover obtain j where "n = L + j" using le_Suc_ex [OF le] by blast
    ultimately show ?thesis by simp
  qed
  moreover have "bit (w OR push_bit L w) n \<longleftrightarrow> bit w n \<or> (L \<le> n \<and> n < 64 \<and> bit w (n - L))"
    by (simp add: bit_or_iff bit_push_bit_iff)
  ultimately show ?thesis
    using L(2) unfolding w by (cases "L \<le> n") auto
qed

lemma bit_splat: "bit (splat c) n \<longleftrightarrow> n < 64 \<and> bit c (n mod 8)"
proof -
  have b1: "bit (ucast c :: u64) n \<longleftrightarrow> n < 8 \<and> bit c (n mod 8)" for n
  proof (cases "n < 8")
    case False
    then have "\<not> bit c n" using bit_imp_le_length [of c n] by auto
    with False show ?thesis by (simp add: bit_simps)
  qed (simp add: bit_simps)
  have b2: "bit (ucast c OR push_bit 8 (ucast c) :: u64) n \<longleftrightarrow> n < 16 \<and> bit c (n mod 8)" for n
    using bit_double [OF b1] by simp
  note b3 = bit_double [where L = 16, OF b2]
  have b3': "bit (let w = ucast c OR push_bit 8 (ucast c) in w OR push_bit 16 w :: u64) n \<longleftrightarrow>
      n < 32 \<and> bit c (n mod 8)" for n
    using b3 by (simp add: Let_def)
  note b4 = bit_double [where L = 32, OF b3']
  show ?thesis unfolding splat_def using b4 by (simp add: Let_def)
qed

lemma bytes64_splat: "bytes64 (splat c) = replicate 8 c"
proof -
  have "ucast (drop_bit (8 * k) (splat c)) = c" if "k < 8" for k
  proof (rule bit_word_eqI)
    fix n assume "n < LENGTH(8)"
    then show "bit (ucast (drop_bit (8 * k) (splat c)) :: u8) n = bit c n"
      using that by (simp add: bit_simps bit_splat)
  qed
  from this [of 0] this [of 1] this [of 2] this [of 3] this [of 4] this [of 5] this [of 6] this [of 7]
  show ?thesis by (simp add: bytes64_def eval_nat_numeral)
qed

lemma bit_join_bytes:
  "length bs \<le> 8 \<Longrightarrow> bit (join_bytes bs) n \<longleftrightarrow> n div 8 < length bs \<and> bit (bs ! (n div 8)) (n mod 8)"
proof (induction bs arbitrary: n)
  case Nil
  then show ?case by simp
next
  case (Cons b bs)
  have eq: "bit (join_bytes (b # bs)) n \<longleftrightarrow>
      bit b n \<or> (8 \<le> n \<and> n < 64 \<and> bit (join_bytes bs) (n - 8))"
    using bit_imp_le_length [of b n] by (auto simp: bit_simps)
  show ?case
  proof (cases "n < 8")
    case True
    then show ?thesis unfolding eq by simp
  next
    case False
    then have b: "\<not> bit b n" using bit_imp_le_length [of b n] by auto
    have n: "(n - 8) div 8 = n div 8 - 1" "(n - 8) mod 8 = n mod 8" "n div 8 \<noteq> 0"
      using False by (auto simp: le_div_geq le_mod_geq div_eq_0_iff)
    have n64: "n < 64" if "n div 8 < length (b # bs)" using that Cons.prems by simp
    have "n div 8 - 1 < length bs \<longleftrightarrow> n div 8 < length (b # bs)"
      using n(3) by (cases "n div 8") auto
    with n64 False Cons b n show ?thesis unfolding eq by (auto simp: nth_Cons')
  qed
qed

lemma bytes64_join: 
  assumes "length bs = 8" shows "bytes64 (join_bytes bs) = bs"
proof -
  have k: "ucast (drop_bit (8 * k) (join_bytes bs)) = bs ! k" if "k < 8" for k
  proof (rule bit_word_eqI)
    fix n assume "n < LENGTH(8)"
    then show "bit (ucast (drop_bit (8 * k) (join_bytes bs)) :: u8) n = bit (bs ! k) n"
      using that assms by (simp add: bit_simps bit_join_bytes)
  qed
  have "bytes64 (join_bytes bs) = map ((!) bs) [0, 1, 2, 3, 4, 5, 6, 7]"
    unfolding bytes64_def by (rule map_cong [OF refl]) (rule k, auto)
  also have "\<dots> = bs" using assms
    by (intro nth_equalityI) (auto simp: nth_Cons' less_Suc_eq numeral_eq_Suc)
  finally show ?thesis .
qed

section \<open>memset fills the region\<close>

abbreviation fill :: "u64 \<Rightarrow> u8 \<Rightarrow> nat \<Rightarrow> kmem \<Rightarrow> kmem" where
  "fill d c k \<equiv> put_bytes st8 d (replicate k c)"

lemma ucast_plus_one: "i < (n :: u32) \<Longrightarrow> (ucast (i + 1) :: u64) = ucast i + 1"
proof -
  assume lt: "i < n"
  have "(ucast (i + 1) :: u64) = of_nat (unat (i + 1))" by simp
  also have "\<dots> = of_nat (Suc (unat i))" by (simp only: unat_plus_one [OF lt])
  also have "\<dots> = ucast i + 1" by simp
  finally show ?thesis .
qed

lemma fill_step:
  assumes "unat i \<le> unat (j :: u32)"
  shows "fill (d + ucast i) c (unat j - unat i) (fill d c (unat i) m) = fill d c (unat j) m"
proof -
  have "replicate (unat j) c = replicate (unat i) c @ replicate (unat j - unat i) c"
    using assms by (simp flip: replicate_add)
  then show ?thesis by (simp add: put_bytes_append)
qed

lemma fill_join:
  assumes "unat i \<le> unat j" "unat j \<le> unat (k :: u32)"
  shows "fill (d + ucast j) c (unat k - unat j) (fill (d + ucast i) c (unat j - unat i) m) =
    fill (d + ucast (i :: u32)) c (unat k - unat i) m"
proof -
  have *: "unat k - unat i = (unat j - unat i) + (unat k - unat j)" using assms by simp
  have "of_nat (unat j - unat i) = (ucast j - ucast i :: u64)"
    using assms by (simp add: of_nat_diff)
  then show ?thesis unfolding * replicate_add put_bytes_append by simp
qed

lemma memset_tail_fill:
  "i \<le> n \<Longrightarrow> memset_tail d c n i m = fill (d + ucast i) c (unat n - unat i) m"
proof (induction d c n i m rule: memset_tail.induct)
  case (1 d c n i m)
  show ?case
  proof (cases "i < n")
    case True
    then have le: "i + 1 \<le> n" and "unat n - unat i = Suc (unat n - unat (i + 1))"
      by (simp_all add: word_le_nat_alt unat_plus_one) (simp_all add: word_less_nat_alt)
    with "1.IH" [OF True le] True show ?thesis
      by (simp add: memset_tail.simps [of d c n i m] ucast_plus_one [OF True] add.assoc)
  next
    case False
    then have "n = i" using "1.prems" by simp
    then show ?thesis by (simp add: memset_tail.simps [of d c i i m])
  qed
qed

lemma memset_head_fill:
  "(d + ucast i + of_nat j) AND 7 = 0 \<Longrightarrow> unat i + j < 4294967296 \<Longrightarrow>
   \<exists>i'. memset_head d c i m = Some (i', fill (d + ucast i) c (unat i' - unat i) m)
      \<and> (d + ucast i') AND 7 = 0 \<and> unat i \<le> unat i' \<and> unat i' \<le> unat i + j"
proof (induction j arbitrary: i m)
  case 0
  then show ?case by (intro exI [of _ i]) (simp add: memset_head.simps)
next
  case (Suc j)
  show ?case
  proof (cases "(d + ucast i) AND 7 = 0")
    case True
    then show ?thesis by (intro exI [of _ i]) (simp add: memset_head.simps)
  next
    case False
    have lt: "i < - 1" using Suc.prems(2) by (simp add: word_less_nat_alt unsigned_minus_1_eq_mask mask_eq_exp_minus_1)
    note u = unat_plus_one [OF lt] and c = ucast_plus_one [OF lt]
    have "(d + ucast (i + 1) + of_nat j) AND 7 = 0" "unat (i + 1) + j < 4294967296"
      using Suc.prems unfolding u c by (simp_all add: algebra_simps)
    from Suc.IH [OF this, of "st8 (d + ucast i) c m", unfolded u c]
    obtain i' where i': "memset_head d c (i + 1) (st8 (d + ucast i) c m) =
        Some (i', fill (d + ucast i + 1) c (unat i' - Suc (unat i)) (st8 (d + ucast i) c m))"
      "(d + ucast i') AND 7 = 0" "Suc (unat i) \<le> unat i'" "unat i' \<le> unat i + Suc j"
      by (auto simp: add.assoc)
    moreover have "unat i' - unat i = Suc (unat i' - Suc (unat i))" using i'(3) by simp
    ultimately show ?thesis
      using False by (intro exI [of _ i']) (simp add: memset_head.simps [of d c i m])
  qed
qed

lemma memset_words_fill:
  "unat n < 4294967288 \<Longrightarrow> unat i \<le> unat n \<Longrightarrow> (d + ucast i) AND 7 = 0 \<Longrightarrow>
   \<exists>i'. memset_words d (splat c) n i m =
        Some (Inr (i', fill (d + ucast i) c (unat i' - unat i) m))
      \<and> unat i \<le> unat i' \<and> unat i' \<le> unat n"
proof (induction "unat n - unat i" arbitrary: i m rule: less_induct)
  case less
  have u8: "unat (i + 8) = unat i + 8" using less.prems by (simp add: unat_word_ariths)
  show ?case
  proof (cases "i + 8 \<le> n")
    case True
    with u8 have le: "unat (i + 8) \<le> unat n" and lt: "unat n - unat (i + 8) < unat n - unat i"
      by (simp_all add: word_le_nat_alt)
    let ?m = "fill (d + ucast i) c 8 m"
    have st: "store64 (d + ucast i) (splat c) m = Inr ?m"
      using less.prems(3) by (simp add: store64_def bytes64_splat)
    from less.hyps [OF lt less.prems(1) le] aligned_step less.prems(3)
    obtain i' where i': "memset_words d (splat c) n (i + 8) ?m =
        Some (Inr (i', fill (d + ucast (i + 8)) c (unat i' - unat (i + 8)) ?m))"
      "unat (i + 8) \<le> unat i'" "unat i' \<le> unat n"
      by (metis (no_types, lifting))
    have "fill (d + ucast (i + 8)) c (unat i' - unat (i + 8)) ?m =
        fill (d + ucast i) c (unat i' - unat i) m"
      using fill_join [of i "i + 8" i' d c m] i' u8 by simp
    with i' True u8 st show ?thesis
      by (intro exI [of _ i']) (simp add: memset_words.simps [of d _ n i m])
  next
    case False
    with less.prems show ?thesis
      by (intro exI [of _ i]) (simp add: memset_words.simps [of d _ n i m])
  qed
qed

lemma distance_to_aligned: "\<exists>j\<le>7. (d + of_nat j) AND 7 = (0 :: u64)"
proof -
  let ?j = "(8 - unat d mod 8) mod 8"
  have "(unat d + ?j) mod 8 = (unat d mod 8 + (8 - unat d mod 8)) mod 8"
    by (metis mod_add_left_eq mod_add_right_eq)
  also have "\<dots> = 0" by simp
  finally have "(unat d + ?j) mod 8 = 0" .
  moreover have "(unat d + ?j) mod 18446744073709551616 mod 8 = (unat d + ?j) mod 8"
    by (rule mod_mod_cancel) simp
  moreover have "unat (of_nat ?j :: u64) = ?j"
    by (simp add: unat_of_nat)
  ultimately have "unat (d + of_nat ?j) mod 8 = unat (0 :: u64) mod 8"
    by (simp add: unat_word_ariths)
  then have "(d + of_nat ?j) AND 7 = 0 AND 7" by (simp only: and7_eq_iff)
  moreover have "?j \<le> 7" by simp
  ultimately show ?thesis by (intro exI [of _ ?j]) simp
qed

lemma memset_fill:
  assumes "unat n < 4294967288"
  shows "memset d c n m = Some (Inr (d, fill d (ucast c) (unat n) m))"
proof (cases "16 \<le> n")
  case True
  obtain j where j: "j \<le> 7" "(d + of_nat j) AND 7 = 0" using distance_to_aligned by blast
  from memset_head_fill [of d 0 j "ucast c" m] j
  obtain i where i: "memset_head d (ucast c) 0 m = Some (i, fill d (ucast c) (unat i) m)"
    "(d + ucast i) AND 7 = 0" "unat i \<le> 7" by auto
  from True have "16 \<le> unat n" by (simp add: word_le_nat_alt)
  with i(3) have "unat i \<le> unat n" by simp
  from memset_words_fill [OF assms this i(2), of "ucast c" "fill d (ucast c) (unat i) m"]
  obtain k where k: "memset_words d (splat (ucast c)) n i (fill d (ucast c) (unat i) m) =
      Some (Inr (k, fill d (ucast c) (unat k) m))" "unat k \<le> unat n"
    by (auto simp: fill_step)
  then show ?thesis
    using True i k by (simp add: memset_def memset_tail_fill word_le_nat_alt fill_step)
next
  case False
  then show ?thesis by (simp add: memset_def memset_tail_fill)
qed

lemma memset_region:
  assumes "n < 0xFFFFFFF8"
  shows "memset dst c n m =
    Some (Inr (dst, \<lambda>x. if unat (x - dst) < unat n then ucast c else m x))"
proof -
  have n: "unat n < 4294967288" using assms by (simp add: word_less_nat_alt)
  have "fill dst (ucast c) (unat n) m x = (if unat (x - dst) < unat n then ucast c else m x)" for x
    using kmem.ld_put_bytes [of "replicate (unat n) (ucast c)" dst m x] n
    by (simp add: ld8_def)
  then show ?thesis unfolding memset_fill [OF n] by (simp add: fun_eq_iff)
qed

text \<open>C8: For every destination, aligned or not, and every length below
  \<open>0xFFFFFFF8\<close>, the doubleword \<open>memset\<close> returns \<open>dst\<close>, never traps on a misaligned store, and leaves
  exactly the byte \<open>(char)c\<close> in the \<open>n\<close> bytes from \<open>dst\<close> and every other byte as it was.\<close>

theorem memset_correct:
  assumes "n < 0xFFFFFFF8"
  shows "memset dst c n m =
    Some (Inr (dst, \<lambda>x. if unat (x - dst) < unat n then ucast c else m x))"
  by (rule memset_region [OF assms])

theorem memset_correct_witness:
  "(21 :: u32) < 0xFFFFFFF8 \<and>
   memset 0x80001003 0xFFFFFF41 21 (\<lambda>_. 0) =
     Some (Inr (0x80001003, \<lambda>x. if unat (x - 0x80001003) < 21 then 0x41 else 0))"
proof -
  have h: "(21 :: u32) < 0xFFFFFFF8" by simp
  show ?thesis
    using h unfolding memset_correct [OF h, where dst = "0x80001003" and c = "0xFFFFFF41" and m = "\<lambda>_. 0"]
    by (simp add: fun_eq_iff)
qed

lemma aligned_le: "(x :: u32) AND 7 = 0 \<Longrightarrow> x \<le> 0xFFFFFFF8"
proof -
  assume "x AND 7 = 0"
  then have "unat x mod 8 = 0" by (metis and7_unat unsigned_0)
  moreover have "unat x < 4294967296" using unsigned_less [of x] by simp
  ultimately show ?thesis by (simp add: word_le_nat_alt) presburger
qed

lemma aligned_add8: "(x :: u32) AND 7 = 0 \<Longrightarrow> (x + 8) AND 7 = 0"
proof -
  assume "x AND 7 = 0"
  then have "unat x mod 8 = 0" by (metis and7_unat unsigned_0)
  moreover have "(unat x + 8) mod 4294967296 mod 8 = (unat x + 8) mod 8"
    by (rule mod_mod_cancel) simp
  ultimately have "unat (x + 8) mod 8 = unat (0 :: u32) mod 8"
    by (simp add: unat_word_ariths)
  then have "(x + 8) AND 7 = 0 AND 7" by (simp only: and7_eq_iff)
  then show ?thesis by simp
qed

lemma memset_words_diverges:
  assumes ret: "memset_words d w n i m = Some r"
    and "0xFFFFFFF8 \<le> n" "(d + ucast i) AND 7 = 0" "i AND 7 = 0"
  shows False
proof -
  let ?P = "\<lambda>d (w :: u64) n (i :: u32) (m :: kmem) (r :: trap + u32 \<times> kmem).
    0xFFFFFFF8 \<le> n \<longrightarrow> (d + ucast i) AND 7 = 0 \<longrightarrow> i AND 7 = 0 \<longrightarrow> False"
  have "?P d w n i m r"
  proof (rule memset_words.raw_induct [where P = ?P, OF _ ret], intro impI)
    fix f d w n i m r
    assume IH: "\<And>d w n i m r. f d w n i m = Some r \<Longrightarrow> ?P d w n i m r"
      and eq: "(if i + 8 \<le> n then case store64 (d + ucast i) w m of Inl t \<Rightarrow> Some (Inl t)
        | Inr m' \<Rightarrow> f d w n (i + 8) m' else Some (Inr (i, m))) = Some r"
      and n: "0xFFFFFFF8 \<le> n" and al: "(d + ucast i) AND 7 = 0" and i: "i AND 7 = 0"
    have i8: "(i + 8) AND 7 = 0" using i by (rule aligned_add8)
    have le: "i + 8 \<le> n" by (rule order_trans [OF aligned_le [OF i8] n])
    have al8: "(d + ucast (i + 8)) AND 7 = 0" unfolding aligned_step by (rule al)
    from le eq al have "f d w n (i + 8) (put_bytes st8 (d + ucast i) (bytes64 w) m) = Some r"
      by (simp add: store64_def)
    from IH [OF this, rule_format, OF n al8 i8] show False .
  qed
  with assms show False by blast
qed

text \<open>
  C32: \<open>memset\<close> never returns for a length in the last 8 below \<open>2^32\<close> and an aligned destination: \<open>i + 8 <= n\<close> is
  a 32-bit comparison, the index wraps and the doubleword loop never ends. So the bound on the length in the
  correctness of \<open>memset\<close> is tight.
\<close>

theorem memset_huge_never_returns:
  assumes "0xFFFFFFF8 \<le> n" "dst AND 7 = 0"
  shows "memset dst c n m = None"
proof -
  have "16 \<le> n" using assms(1) by (rule order_trans [rotated]) simp
  moreover have "memset_head dst (ucast c) 0 m = Some (0, m)"
    using assms(2) by (simp add: memset_head.simps)
  moreover have "memset_words dst (splat (ucast c)) n 0 m = None"
    using memset_words_diverges [OF _ assms(1), of dst _ 0] assms(2) by fastforce
  ultimately show ?thesis by (simp add: memset_def)
qed


theorem memset_huge_never_returns_witness:
  "memset 0x80000000 0 0xFFFFFFFF (\<lambda>_. 0) = None"
proof -
  have h: "(0xFFFFFFF8 :: u32) \<le> 0xFFFFFFFF" and a: "(0x80000000 :: u64) AND 7 = 0" by simp_all
  show ?thesis by (rule memset_huge_never_returns [OF h a])
qed

section \<open>memmove copies the region\<close>

abbreviation copy8 :: "nat \<Rightarrow> u64 \<Rightarrow> u64 \<Rightarrow> kmem \<Rightarrow> kmem" where
  "copy8 \<equiv> copy_up ld8 st8"

lemma unat_pred: "n \<noteq> 0 \<Longrightarrow> unat n = Suc (unat (n - 1 :: u32))"
  using unat_gt_0 [of n] by (simp add: unat_minus_one)

lemma memmove_tail_copy: "memmove_tail d s n m = copy8 (unat n) d s m"
proof (induction d s n m rule: memmove_tail.induct)
  case (1 d s n m)
  then show ?case
    by (cases "n = 0") (simp_all add: memmove_tail.simps [of d s _ m] unat_pred)
qed

lemma memmove_back_copy:
  "memmove_back (d + of_nat (unat n)) (s + of_nat (unat n)) n m = copy_down ld8 st8 (unat n) d s m"
proof (induction "unat n" arbitrary: n m)
  case 0
  then have "n = 0" by (simp add: unat_eq_zero)
  then show ?case by (simp add: memmove_back.simps)
next
  case (Suc k)
  then have n: "n \<noteq> 0" by auto
  with Suc.hyps(2) have k: "unat (n - 1) = k" using unat_pred [OF n] by simp
  show ?case
    using Suc.hyps(1) [of "n - 1"] n k Suc.hyps(2) [symmetric]
    by (simp add: memmove_back.simps [of _ _ n] del: of_nat_unat)
qed

lemma memmove_head_copy:
  "\<exists>j. memmove_head d s n m = (d + of_nat j, s + of_nat j, n - of_nat j, copy8 j d s m)
     \<and> j \<le> unat n \<and> ((d + of_nat j) AND 7 = 0 \<or> j = unat n)"
proof (induction d s n m rule: memmove_head.induct)
  case (1 d s n m)
  show ?case
  proof (cases "d AND 7 \<noteq> 0 \<and> 0 < n")
    case True
    with "1.IH" obtain j where j:
      "memmove_head (d + 1) (s + 1) (n - 1) (st8 d (ld8 m s) m) =
         (d + 1 + of_nat j, s + 1 + of_nat j, n - 1 - of_nat j,
          copy8 j (d + 1) (s + 1) (st8 d (ld8 m s) m))"
      "j \<le> unat (n - 1)" "(d + 1 + of_nat j) AND 7 = 0 \<or> j = unat (n - 1)"
      by blast
    from True have "unat n = Suc (unat (n - 1))" by (intro unat_pred) auto
    with j True show ?thesis
      by (intro exI [of _ "Suc j"]) (auto simp: memmove_head.simps [of d s n m] algebra_simps)
  next
    case False
    then show ?thesis
      by (intro exI [of _ 0]) (auto simp: memmove_head.simps [of d s n m] word_neq_0_conv [symmetric])
  qed
qed

lemma length_read8 [simp]: "length (read8 m a) = 8"
  by (simp add: read8_def)

lemma nth_read8: "i < 8 \<Longrightarrow> read8 m a ! i = ld8 m (a + of_nat i)"
  by (auto simp: read8_def less_Suc_eq numeral_eq_Suc)

lemma copy_doubleword:
  assumes "d = s \<or> 8 \<le> unat (d - s)"
  shows "put_bytes st8 d (read8 m s) m = copy8 8 d s m" (is "?l = ?r")
proof
  fix x
  have "ld8 ?l x = ld8 ?r x"
    by (simp add: kmem.ld_copy_up [OF _ assms] kmem.ld_put_bytes nth_read8)
  then show "?l x = ?r x" by (simp add: ld8_def)
qed

lemma memmove_words_copy:
  "d AND 7 = 0 \<Longrightarrow> s AND 7 = 0 \<Longrightarrow> d = s \<or> 8 \<le> unat (d - s) \<Longrightarrow>
   \<exists>k. memmove_words d s n m = Inr (d + of_nat k, s + of_nat k, n - of_nat k, copy8 k d s m)
     \<and> k \<le> unat n"
proof (induction "unat n" arbitrary: d s n m rule: less_induct)
  case less
  show ?case
  proof (cases "8 \<le> n")
    case True
    then have n: "unat (n - 8) = unat n - 8" "8 \<le> unat n"
      by (simp_all add: unat_sub word_le_nat_alt)
    have al: "(x + 8) AND 7 = 0" if "x AND 7 = 0" for x :: u64
      using and7_add [of 8 0 x] that by simp
    have "memmove_words d s n m = memmove_words (d + 8) (s + 8) (n - 8) (copy8 8 d s m)"
      using True less.prems copy_doubleword [OF less.prems(3), of m]
      by (simp add: memmove_words.simps [of d s n m] load64_def store64_def bytes64_join)
    moreover obtain k where "memmove_words (d + 8) (s + 8) (n - 8) (copy8 8 d s m) =
        Inr (d + 8 + of_nat k, s + 8 + of_nat k, n - 8 - of_nat k, copy8 k (d + 8) (s + 8) (copy8 8 d s m))"
      "k \<le> unat (n - 8)"
      using less.hyps [of "n - 8" "d + 8" "s + 8" "copy8 8 d s m"] less.prems n al by auto
    ultimately show ?thesis
      using n copy_up_add [of ld8 st8 8 k d s m]
      by (intro exI [of _ "8 + k"]) (simp add: algebra_simps)
  next
    case False
    then show ?thesis by (intro exI [of _ 0]) (simp add: memmove_words.simps [of d s n m])
  qed
qed

lemma same_phase: "(s XOR d) AND 7 = 0 \<Longrightarrow> s AND 7 = (d :: u64) AND 7"
  unfolding bit_eq_iff by (auto simp: bit_simps)

lemma unat_sub_of_nat:
  assumes "j \<le> unat n"
  shows "unat (n - of_nat j :: u32) = unat n - j"
proof -
  have "j < 4294967296" using assms unat_u32_less [of n] by simp
  then show ?thesis using assms by (simp add: unat_sub word_le_nat_alt unat_of_nat)
qed

text \<open>
  The forward path: head, doublewords and tail together are one byte-at-a-time copy when no
  source byte is overwritten before it is read.
\<close>

lemma memmove_forward_copy:
  assumes clear: "d = s \<or> unat n \<le> unat (d - s)" and "16 \<le> n" and phase: "(s XOR d) AND 7 = 0"
    and head: "memmove_head d s n m = (d1, s1, n1, m1)"
  shows "\<exists>d2 s2 n2 m2. memmove_words d1 s1 n1 m1 = Inr (d2, s2, n2, m2)
    \<and> memmove_tail d2 s2 n2 m2 = copy8 (unat n) d s m"
proof -
  obtain j where j: "d1 = d + of_nat j" "s1 = s + of_nat j" "n1 = n - of_nat j"
      "m1 = copy8 j d s m" "j \<le> unat n" "(d + of_nat j) AND 7 = 0 \<or> j = unat n"
    using memmove_head_copy [of d s n m] head by auto
  note n1 = unat_sub_of_nat [OF j(5)]
  have "\<exists>k. memmove_words d1 s1 n1 m1 =
      Inr (d1 + of_nat k, s1 + of_nat k, n1 - of_nat k, copy8 k d1 s1 m1) \<and> k \<le> unat n1"
  proof (cases "(d + of_nat j) AND 7 = 0")
    case True
    then have "d1 AND 7 = 0" "s1 AND 7 = 0"
      using and7_add [OF same_phase [OF phase], of "of_nat j"] j by (simp_all add: add.commute)
    moreover have "d1 = s1 \<or> 8 \<le> unat (d1 - s1)"
      using clear \<open>16 \<le> n\<close> j by (auto simp: word_le_nat_alt)
    ultimately show ?thesis by (rule memmove_words_copy)
  next
    case False
    with j n1 have "n1 = 0" by (simp add: unat_eq_zero [symmetric])
    then show ?thesis by (intro exI [of _ 0]) (simp add: memmove_words.simps)
  qed
  then obtain k where k: "memmove_words d1 s1 n1 m1 =
      Inr (d1 + of_nat k, s1 + of_nat k, n1 - of_nat k, copy8 k d1 s1 m1)" "k \<le> unat n1"
    by blast
  have "unat n = j + k + (unat n1 - k)" using k n1 j by simp
  then have "copy8 (unat n) d s m = copy8 (unat n1 - k) (d1 + of_nat k) (s1 + of_nat k) (copy8 k d1 s1 m1)"
    by (simp add: copy_up_add j add.assoc)
  with k show ?thesis by (simp add: memmove_tail_copy unat_sub_of_nat)
qed

text \<open>
  Where the regions do not wrap around the address space, the direction test picks a copy that
  reads every source byte before it is overwritten.
\<close>

lemma forward_is_clear:
  assumes "unat s + unat (n :: u32) < 2 ^ 64" "\<not> (s < d \<and> s + ucast n > (d :: u64))"
  shows "d = s \<or> unat n \<le> unat (d - s)"
proof -
  have "unat (s + ucast n) = unat s + unat n"
    using assms(1) unat_u32_less [of n] by (simp add: unat_word_ariths unsigned_ucast_eq take_bit_eq_mod)
  with assms show ?thesis
    by (simp add: unat_sub_if' word_less_nat_alt word_unat_eq_iff) arith
qed

lemma backward_is_clear:
  assumes "unat d + unat (n :: u32) \<le> 2 ^ 64" "s < (d :: u64)"
  shows "unat n \<le> unat (s - d)"
  using assms by (simp add: unat_sub_if' word_less_nat_alt)

text \<open>C5: Where neither region runs past the end of the address space, \<open>memmove\<close>
  never traps and gives the \<open>n\<close> bytes from \<open>dst\<close> the values the \<open>n\<close> bytes from \<open>src\<close> had before the
  call, however the regions overlap and whatever their alignment, and changes nothing else.\<close>

theorem memmove_correct:
  assumes "unat src + unat n < 2 ^ 64" "unat dst + unat n \<le> 2 ^ 64"
  shows "memmove dst src n m =
    Inr (dst, \<lambda>x. if unat (x - dst) < unat n then m (src + (x - dst)) else m x)"
proof -
  have n: "unat n \<le> 2 ^ LENGTH(64)" using unat_u32_less [of n] by simp
  show ?thesis
  proof (cases "src < dst \<and> src + ucast n > dst")
    case True
    then have "dst = src \<or> unat n \<le> unat (src - dst)"
      using backward_is_clear assms(2) by blast
    with True memmove_back_copy [of dst n src m] kmem.ld_copy_down [OF n, of dst src m]
    show ?thesis by (simp add: memmove_def ld8_def fun_eq_iff)
  next
    case False
    have clear: "dst = src \<or> unat n \<le> unat (dst - src)"
      using forward_is_clear [OF assms(1) False] .
    have "memmove dst src n m = Inr (dst, copy8 (unat n) dst src m)"
    proof (cases "16 \<le> n \<and> (src XOR dst) AND 7 = 0")
      case True
      obtain d1 s1 n1 m1 where h: "memmove_head dst src n m = (d1, s1, n1, m1)"
        by (metis prod_cases4)
      with memmove_forward_copy [OF clear _ _ h] True False show ?thesis
        by (auto simp: memmove_def)
    next
      case no: False
      with False show ?thesis by (auto simp: memmove_def memmove_tail_copy)
    qed
    with kmem.ld_copy_up [OF n clear, of m] show ?thesis
      by (simp add: ld8_def fun_eq_iff)
  qed
qed

theorem memmove_correct_witness:
  "memmove 0x80001010 0x80001000 32 (\<lambda>x. ucast x) =
     Inr (0x80001010, \<lambda>x. if unat (x - 0x80001010) < 32 then ucast (0x80001000 + (x - 0x80001010)) else ucast x)"
proof -
  have s: "unat (0x80001000 :: u64) + unat (32 :: u32) < 2 ^ 64"
    and d: "unat (0x80001010 :: u64) + unat (32 :: u32) \<le> 2 ^ 64" by simp_all
  show ?thesis using memmove_correct [OF s d, of "\<lambda>x. ucast x"] by simp
qed

end
