(* ===== verification/Trap.thy ===== *)
theory Trap
  imports Prelude
begin

text \<open>
  Machine-mode traps of the port (\<open>kernel/kernelvec.S\<close>, \<open>timervec\<close> and \<open>reflect\<close>), the timer set-up
  (\<open>timerinit\<close> in \<open>kernel/start.c\<close>) and the software-interrupt branch of \<open>devintr\<close>
  (\<open>kernel/trap.c\<close>), all from \<open>xv6/0001-xv6-rocket-port.patch\<close>. The CPU state holds the four
  registers the handler uses and the CSRs it touches; memory is read and written in 8-byte
  aligned doublewords. CSRs hold what is written to them, except \<open>sip\<close>, where only SSIP (bit 1) can be
  written.
\<close>

section \<open>The hart\<close>

datatype priv = PrivU | PrivS | PrivM

instantiation priv :: linorder
begin

definition less_eq_priv :: "priv \<Rightarrow> priv \<Rightarrow> bool" where
  "less_eq_priv p q \<longleftrightarrow> p = PrivU \<or> q = PrivM \<or> p = q"

definition less_priv :: "priv \<Rightarrow> priv \<Rightarrow> bool" where
  "less_priv p q \<longleftrightarrow> p \<le> q \<and> p \<noteq> (q :: priv)"

instance
proof
  fix p q r :: priv
  show "(p < q) = (p \<le> q \<and> \<not> q \<le> p)"
    by (cases p; cases q) (simp_all add: less_priv_def less_eq_priv_def)
  show "p \<le> p" by (simp add: less_eq_priv_def)
  show "p \<le> q \<Longrightarrow> q \<le> r \<Longrightarrow> p \<le> r" by (auto simp: less_eq_priv_def)
  show "p \<le> q \<Longrightarrow> q \<le> p \<Longrightarrow> p = q" by (auto simp: less_eq_priv_def)
  show "p \<le> q \<or> q \<le> p" by (cases p; cases q) (simp_all add: less_eq_priv_def)
qed

end

record hart =
  ra0 :: u64
  ra1 :: u64
  ra2 :: u64
  ra3 :: u64
  pc :: u64
  prv :: priv
  mhartid :: u64
  mstatus :: u64
  mtvec :: u64
  mie :: u64
  mscratch :: u64
  mcause :: u64
  mepc :: u64
  mtval :: u64
  scause :: u64
  sepc :: u64
  stval :: u64
  stvec :: u64
  sip :: u64
  dmem :: "u64 \<Rightarrow> u64"

definition sd :: "u64 \<Rightarrow> u64 \<Rightarrow> hart \<Rightarrow> hart" where
  "sd a v s = s\<lparr>dmem := (dmem s)(a := v)\<rparr>"

text \<open>\<open>csrrw a0, mscratch, a0\<close>\<close>

definition swap_a0_mscratch :: "hart \<Rightarrow> hart" where
  "swap_a0_mscratch s = s\<lparr>ra0 := mscratch s, mscratch := ra0 s\<rparr>"

text \<open>
  The architecture: trap entry into M-mode, trap entry into S-mode (what delegation does,
  with \<open>stvec\<close> in direct mode), and \<open>mret\<close>. Fields of \<open>mstatus\<close>: SIE is bit 1, MIE bit 3, SPIE
  bit 5, MPIE bit 7, SPP bit 8, MPP bits 11 and 12.
\<close>

definition put_bit :: "nat \<Rightarrow> bool \<Rightarrow> u64 \<Rightarrow> u64" where
  "put_bit n b w = (if b then set_bit n w else unset_bit n w)"

fun mpp_bits :: "priv \<Rightarrow> u64 \<Rightarrow> u64" where
  "mpp_bits PrivU w = put_bit 11 False (put_bit 12 False w)"
| "mpp_bits PrivS w = put_bit 11 True (put_bit 12 False w)"
| "mpp_bits PrivM w = put_bit 11 True (put_bit 12 True w)"

definition mpp_of :: "u64 \<Rightarrow> priv" where
  "mpp_of w = (if bit w 11 then if bit w 12 then PrivM else PrivS else PrivU)"

definition m_trap :: "u64 \<Rightarrow> u64 \<Rightarrow> hart \<Rightarrow> hart" where
  "m_trap cause tval s = s\<lparr>
     mcause := cause, mepc := pc s, mtval := tval, pc := mtvec s, prv := PrivM,
     mstatus := mpp_bits (prv s) (put_bit 7 (bit (mstatus s) 3) (put_bit 3 False (mstatus s)))\<rparr>"

definition s_trap :: "u64 \<Rightarrow> u64 \<Rightarrow> hart \<Rightarrow> hart" where
  "s_trap cause tval s = s\<lparr>
     scause := cause, sepc := pc s, stval := tval, pc := stvec s AND NOT 3, prv := PrivS,
     mstatus := put_bit 8 (prv s = PrivS) (put_bit 5 (bit (mstatus s) 1) (put_bit 1 False (mstatus s)))\<rparr>"

definition mret :: "hart \<Rightarrow> hart" where
  "mret s = s\<lparr>
     pc := mepc s, prv := mpp_of (mstatus s),
     mstatus := mpp_bits PrivU (put_bit 7 True (put_bit 3 (bit (mstatus s) 7) (mstatus s)))\<rparr>"

definition csrw_sip :: "u64 \<Rightarrow> hart \<Rightarrow> hart" where
  "csrw_sip v s = s\<lparr>sip := put_bit 1 (bit v 1) (sip s)\<rparr>"

section \<open>timervec\<close>

text \<open>\<open>csrrw a0, mscratch, a0; sd a1, 0(a0); sd a2, 8(a0); sd a3, 16(a0)\<close>\<close>

definition save_regs :: "hart \<Rightarrow> hart" where
  "save_regs s =
     (let s = swap_a0_mscratch s;
          s = sd (ra0 s) (ra1 s) s;
          s = sd (ra0 s + 8) (ra2 s) s
      in sd (ra0 s + 16) (ra3 s) s)"

text \<open>\<open>ld a3, 16(a0); ld a2, 8(a0); ld a1, 0(a0); csrrw a0, mscratch, a0; mret\<close>\<close>

definition restore_mret :: "hart \<Rightarrow> hart" where
  "restore_mret s =
     (let s = s\<lparr>ra3 := dmem s (ra0 s + 16)\<rparr>;
          s = s\<lparr>ra2 := dmem s (ra0 s + 8)\<rparr>;
          s = s\<lparr>ra1 := dmem s (ra0 s)\<rparr>
      in mret (swap_a0_mscratch s))"

text \<open>\<open>bgez a1, reflect; andi a2, a1, 0xff; li a3, 7; bne a2, a3, reflect\<close>\<close>

definition is_mtimer :: "u64 \<Rightarrow> bool" where
  "is_mtimer cause \<longleftrightarrow> \<not> 0 \<le> sint cause \<and> cause AND 0xff = 7"

definition rearm :: "hart \<Rightarrow> hart" where
  "rearm s =
     (let s = s\<lparr>ra1 := dmem s (ra0 s + 24)\<rparr>;
          s = s\<lparr>ra2 := dmem s (ra0 s + 32)\<rparr>;
          s = s\<lparr>ra3 := dmem s (ra0 s + 40)\<rparr>;
          s = s\<lparr>ra3 := dmem s (ra3 s)\<rparr>;
          s = s\<lparr>ra3 := ra3 s + ra2 s\<rparr>;
          s = sd (ra1 s) (ra3 s) s;
          s = s\<lparr>ra1 := 2\<rparr>
      in csrw_sip (ra1 s) s)"

text \<open>From the label \<open>reflect\<close> up to the restoring of the registers; \<open>a1\<close> holds \<open>mcause\<close>.\<close>

definition reflect :: "hart \<Rightarrow> hart" where
  "reflect s =
     (let s = s\<lparr>scause := ra1 s\<rparr>;
          s = s\<lparr>ra1 := mepc s\<rparr>;
          s = s\<lparr>sepc := ra1 s\<rparr>;
          s = s\<lparr>ra1 := mtval s\<rparr>;
          s = s\<lparr>stval := ra1 s\<rparr>;
          s = s\<lparr>ra1 := mstatus s\<rparr>;
          s = s\<lparr>ra2 := drop_bit 11 (ra1 s)\<rparr>;
          s = s\<lparr>ra2 := ra2 s AND 1\<rparr>;
          s = s\<lparr>ra2 := push_bit 8 (ra2 s)\<rparr>;
          s = s\<lparr>ra3 := ra1 s AND 2\<rparr>;
          s = s\<lparr>ra3 := push_bit 4 (ra3 s)\<rparr>;
          s = s\<lparr>ra1 := ra1 s AND (- 291)\<rparr>;
          s = s\<lparr>ra1 := ra1 s OR ra2 s\<rparr>;
          s = s\<lparr>ra1 := ra1 s OR ra3 s\<rparr>;
          s = s\<lparr>ra2 := 3\<rparr>;
          s = s\<lparr>ra2 := push_bit 11 (ra2 s)\<rparr>;
          s = s\<lparr>ra2 := NOT (ra2 s)\<rparr>;
          s = s\<lparr>ra1 := ra1 s AND ra2 s\<rparr>;
          s = s\<lparr>ra2 := 1\<rparr>;
          s = s\<lparr>ra2 := push_bit 11 (ra2 s)\<rparr>;
          s = s\<lparr>ra1 := ra1 s OR ra2 s\<rparr>;
          s = s\<lparr>mstatus := ra1 s\<rparr>;
          s = s\<lparr>ra1 := stvec s\<rparr>;
          s = s\<lparr>ra1 := ra1 s AND (- 4)\<rparr>
      in s\<lparr>mepc := ra1 s\<rparr>)"

definition timervec :: "hart \<Rightarrow> hart" where
  "timervec s =
     (let s = save_regs s;
          s = s\<lparr>ra1 := mcause s\<rparr>
      in if \<not> is_mtimer (ra1 s) then restore_mret (reflect s)
         else restore_mret (rearm (s\<lparr>ra2 := ra1 s AND 0xff, ra3 := 7\<rparr>)))"

section \<open>timerinit and devintr\<close>

definition CLINT_BASE :: u64 where "CLINT_BASE = 0x02000000"

definition CLINT_MTIMECMP :: "u64 \<Rightarrow> u64" where
  "CLINT_MTIMECMP hartid = CLINT_BASE + 0x4000 + 8 * hartid"

definition CLINT_MTIME :: u64 where "CLINT_MTIME = CLINT_BASE + 0xBFF8"

text \<open>
  \<open>timer_scratch\<close> and the address of \<open>timervec\<close> come from the linker; \<open>timer_scratch[id]\<close> is six
  doublewords. \<open>int id = r_mhartid()\<close> keeps the low 32 bits as a signed value.
\<close>

definition timerinit :: "u64 \<Rightarrow> u64 \<Rightarrow> hart \<Rightarrow> hart" where
  "timerinit timer_scratch timervec_addr s =
     (let ident = scast (ucast (mhartid s) :: u32) :: u64;
          interval = 25000;
          s = sd (CLINT_MTIMECMP ident) (dmem s CLINT_MTIME + interval) s;
          scratch = timer_scratch + 48 * ident;
          s = sd (scratch + 24) (CLINT_MTIMECMP ident) s;
          s = sd (scratch + 32) interval s;
          s = sd (scratch + 40) CLINT_MTIME s;
          s = s\<lparr>mscratch := scratch\<rparr>;
          s = s\<lparr>mtvec := timervec_addr\<rparr>;
          s = s\<lparr>mstatus := mstatus s OR push_bit 3 1\<rparr>
      in s\<lparr>mie := mie s OR push_bit 7 1\<rparr>)"

text \<open>
  The branches of \<open>devintr\<close> for software and timer interrupts, in a world \<open>w\<close> of devices; \<open>clockintr\<close> is an
  argument (it may not return: \<open>None\<close>), \<open>other\<close> is every other cause.
\<close>

definition devintr_soft :: "(hart \<Rightarrow> 'w \<Rightarrow> (hart \<times> 'w) option) \<Rightarrow> (hart \<Rightarrow> 'w \<Rightarrow> (nat \<times> hart \<times> 'w) option) \<Rightarrow>
    hart \<Rightarrow> 'w \<Rightarrow> (nat \<times> hart \<times> 'w) option" where
  "devintr_soft clockintr other s w =
     (if scause s = 0x8000000000000001
      then map_option (\<lambda>(s, w). (2, s, w)) (clockintr (csrw_sip (sip s AND NOT 2) s) w)
      else if scause s = 0x8000000000000005 then map_option (\<lambda>(s, w). (2, s, w)) (clockintr s w)
      else other s w)"

section \<open>Bits of mstatus\<close>

lemma bit_put_bit: "bit (put_bit n b w) k \<longleftrightarrow> (if k = n then n < 64 \<and> b else bit (w :: u64) k)"
proof -
  have "bit w k \<Longrightarrow> k < 64" using bit_imp_le_length [of w k] by simp
  then show ?thesis by (auto simp: put_bit_def bit_simps)
qed

lemma bit_mpp_bits:
  "bit (mpp_bits p w) k \<longleftrightarrow>
     (if k = 11 then p \<noteq> PrivU else if k = 12 then p = PrivM else bit w k)"
  by (cases p) (simp_all add: bit_put_bit)

lemma mpp_of_mpp_bits [simp]: "mpp_of (mpp_bits p w) = p"
  by (cases p) (simp_all add: mpp_of_def bit_put_bit)

lemma bit_word_push_bit: "bit (push_bit m (w :: u64)) k \<longleftrightarrow> m \<le> k \<and> k < 64 \<and> bit w (k - m)"
  by (simp add: bit_push_bit_iff)

lemma bit_word_not: "bit (NOT (w :: u64)) k \<longleftrightarrow> k < 64 \<and> \<not> bit w k"
  by (simp add: bit_not_iff)

lemma bit_word_drop: "bit (drop_bit m (w :: u64)) k \<longleftrightarrow> bit w (m + k)"
  by (simp add: bit_drop_bit_eq)

lemmas word_bits = bit_word_push_bit bit_word_not bit_word_drop bit_and_iff bit_or_iff bit_1_iff

lemma bit_290: "bit (290 :: u64) k \<longleftrightarrow> k = 1 \<or> k = 5 \<or> k = 8"
proof -
  have "(290 :: u64) = push_bit 1 1 OR (push_bit 5 1 OR push_bit 8 1)" by simp
  then show ?thesis by (simp only: word_bits) auto
qed

lemma bit_minus_291: "bit (- 291 :: u64) k \<longleftrightarrow> k < 64 \<and> k \<noteq> 1 \<and> k \<noteq> 5 \<and> k \<noteq> 8"
proof -
  have "(- 291 :: u64) = NOT 290" by simp
  then show ?thesis by (simp only: word_bits bit_290) auto
qed

lemma bit_3: "bit (3 :: u64) k \<longleftrightarrow> k = 0 \<or> k = 1"
proof -
  have "(3 :: u64) = 1 OR push_bit 1 1" by simp
  then show ?thesis by (simp only: word_bits) auto
qed

lemma bit_2: "bit (2 :: u64) k \<longleftrightarrow> k = 1"
proof -
  have "(2 :: u64) = push_bit 1 1" by simp
  then show ?thesis by (simp only: word_bits) auto
qed

definition reflected_mstatus :: "u64 \<Rightarrow> u64" where
  "reflected_mstatus w =
     ((((w AND (- 291)) OR push_bit 8 (drop_bit 11 w AND 1)) OR push_bit 4 (w AND 2))
        AND NOT (push_bit 11 3)) OR push_bit 11 1"

lemma bit_reflected_mstatus:
  "bit (reflected_mstatus w) k \<longleftrightarrow>
     (if k = 8 then bit w 11 else if k = 5 then bit w 1 else if k = 1 then False
      else if k = 11 then True else if k = 12 then False else bit w k)"
proof -
  have *: "bit w k \<Longrightarrow> k < 64" using bit_imp_le_length [of w k] by simp
  show ?thesis
    unfolding reflected_mstatus_def
    by (simp only: word_bits bit_minus_291 bit_3 bit_2) (auto dest: *)
qed

lemma reflect_eq:
  "reflect s = s\<lparr>scause := ra1 s, sepc := mepc s, stval := mtval s,
     mstatus := reflected_mstatus (mstatus s), mepc := stvec s AND NOT 3,
     ra1 := stvec s AND NOT 3, ra2 := push_bit 11 1,
     ra3 := push_bit 4 (mstatus s AND 2)\<rparr>"
proof -
  have "(- 4 :: u64) = NOT 3" by simp
  then show ?thesis
    by (simp add: reflect_def Let_def reflected_mstatus_def)
qed

section \<open>The handler as a whole\<close>

lemma save_regs_eq:
  "save_regs s = s\<lparr>ra0 := mscratch s, mscratch := ra0 s,
     dmem := (dmem s)(mscratch s := ra1 s, mscratch s + 8 := ra2 s, mscratch s + 16 := ra3 s)\<rparr>"
  by (simp add: save_regs_def swap_a0_mscratch_def sd_def Let_def)

lemma restore_mret_eq:
  "restore_mret s = mret (s\<lparr>ra0 := mscratch s, mscratch := ra0 s,
     ra1 := dmem s (ra0 s), ra2 := dmem s (ra0 s + 8), ra3 := dmem s (ra0 s + 16)\<rparr>)"
  by (cases s) (simp add: restore_mret_def swap_a0_mscratch_def Let_def)

lemma rearm_eq:
  "rearm s = s\<lparr>ra1 := 2, ra2 := dmem s (ra0 s + 32),
     ra3 := dmem s (dmem s (ra0 s + 40)) + dmem s (ra0 s + 32),
     dmem := (dmem s)(dmem s (ra0 s + 24) :=
       dmem s (dmem s (ra0 s + 40)) + dmem s (ra0 s + 32)), sip := put_bit 1 True (sip s)\<rparr>"
  by (simp add: rearm_def sd_def Let_def csrw_sip_def)

lemmas handler_simps = timervec_def Let_def save_regs_eq restore_mret_eq m_trap_def mret_def

lemmas mstatus_bits = bit_put_bit bit_mpp_bits bit_reflected_mstatus mpp_of_def

text \<open>What the supervisor can see of a hart, outside the handler's register save area.\<close>

definition supervisor_equal :: "u64 set \<Rightarrow> hart \<Rightarrow> hart \<Rightarrow> bool" where
  "supervisor_equal save t d \<longleftrightarrow>
     (ra0 t, ra1 t, ra2 t, ra3 t, pc t, prv t) = (ra0 d, ra1 d, ra2 d, ra3 d, pc d, prv d)
   \<and> (scause t, sepc t, stval t, stvec t, sip t) = (scause d, sepc d, stval d, stvec d, sip d)
   \<and> (\<forall>k. k \<notin> {7, 11, 12} \<longrightarrow> bit (mstatus t) k = bit (mstatus d) k)
   \<and> (\<forall>a. a \<notin> save \<longrightarrow> dmem t a = dmem d a)"

definition save_area :: "u64 \<Rightarrow> u64 set" where
  "save_area scratch = {scratch, scratch + 8, scratch + 16}"

lemma delegation_matches:
  assumes "prv s \<noteq> PrivM" "\<not> is_mtimer cause"
  shows "supervisor_equal (save_area (mscratch s)) (timervec (m_trap cause tval s)) (s_trap cause tval s)
    \<and> mscratch (timervec (m_trap cause tval s)) = mscratch s"
  using assms
  by (auto simp: supervisor_equal_def save_area_def handler_simps reflect_eq s_trap_def mstatus_bits)
     (cases "prv s"; auto)+

text \<open>
  C3: For every trap taken below M-mode that is not the machine timer interrupt, the
  M-mode handler does what hardware delegation would have done: after its \<open>mret\<close> the hart is in
  S-mode at \<open>stvec\<close> with \<open>scause\<close>, \<open>sepc\<close>, \<open>stval\<close>, all registers, every \<open>mstatus\<close> bit outside MPIE and
  MPP (SIE, SPIE, SPP, MIE among them) and all memory outside the register save area as after a
  direct S-mode trap, and \<open>mscratch\<close> is restored.
\<close>

theorem reflect_is_delegation:
  assumes "prv s \<noteq> PrivM" "\<not> is_mtimer cause"
  shows "supervisor_equal (save_area (mscratch s)) (timervec (m_trap cause tval s)) (s_trap cause tval s)
    \<and> mscratch (timervec (m_trap cause tval s)) = mscratch s"
  by (rule delegation_matches [OF assms])

definition timer_ready :: "u64 \<Rightarrow> u64 \<Rightarrow> hart \<Rightarrow> bool" where
  "timer_ready scratch cmp s \<longleftrightarrow>
     mscratch s = scratch \<and> dmem s (scratch + 24) = cmp \<and> dmem s (scratch + 32) = 25000
   \<and> dmem s (scratch + 40) = CLINT_MTIME
   \<and> cmp \<notin> {scratch, scratch + 8, scratch + 16, scratch + 24, scratch + 32, scratch + 40}
   \<and> CLINT_MTIME \<notin> save_area scratch"

lemma mtimer_tick_eq:
  assumes "timer_ready scratch cmp s" "is_mtimer cause"
  shows "timervec (m_trap cause tval s) = s\<lparr>
     mcause := cause, mepc := pc s, mtval := tval, sip := put_bit 1 True (sip s),
     mstatus := mpp_bits PrivU (put_bit 7 True (put_bit 3 (bit (mstatus s) 3)
       (mpp_bits (prv s) (put_bit 7 (bit (mstatus s) 3) (put_bit 3 False (mstatus s)))))),
     dmem := (dmem s)(scratch := ra1 s, scratch + 8 := ra2 s, scratch + 16 := ra3 s,
       cmp := dmem s CLINT_MTIME + 25000)\<rparr>"
  using assms
  by (auto simp: timer_ready_def save_area_def handler_simps rearm_eq bit_mpp_bits bit_put_bit)

lemma timer_tick_equal:
  assumes ready: "timer_ready scratch cmp s" and "is_mtimer cause"
  shows "supervisor_equal (insert cmp (save_area scratch)) (timervec (m_trap cause tval s))
      (s\<lparr>sip := put_bit 1 True (sip s)\<rparr>)
    \<and> dmem (timervec (m_trap cause tval s)) cmp = dmem s CLINT_MTIME + 25000"
  unfolding mtimer_tick_eq [OF assms]
  by (auto simp: supervisor_equal_def save_area_def mstatus_bits)

text \<open>
  C13: A machine timer interrupt is transparent: the interrupted code resumes at the same
  pc, privilege and register values, with the same memory outside the save area and the
  comparator and the same \<open>mstatus\<close> outside MPIE and MPP; only a supervisor software interrupt is
  raised, and the comparator is set to the current time plus the interval.
\<close>

theorem timer_tick_resumes:
  assumes ready: "timer_ready scratch cmp s" and "is_mtimer cause"
  shows "supervisor_equal (insert cmp (save_area scratch)) (timervec (m_trap cause tval s))
      (s\<lparr>sip := put_bit 1 True (sip s)\<rparr>)
    \<and> dmem (timervec (m_trap cause tval s)) cmp = dmem s CLINT_MTIME + 25000"
  by (rule timer_tick_equal [OF assms])

lemma timervec_keeps:
  assumes "timer_ready scratch cmp s"
  shows "timer_ready scratch cmp (timervec (m_trap cause tval s))"
proof (cases "is_mtimer cause")
  case True
  have "cmp \<noteq> scratch + 24" "cmp \<noteq> scratch + 32" "cmp \<noteq> scratch + 40"
    using assms by (auto simp: timer_ready_def)
  then show ?thesis
    using assms unfolding mtimer_tick_eq [OF assms True] by (simp add: timer_ready_def)
next
  case False
  then show ?thesis
    using assms by (auto simp: timer_ready_def handler_simps reflect_eq)
qed

text \<open>
  C22: Every trap through \<open>timervec\<close>, timer or not, leaves \<open>mscratch\<close> and the three constants
  of the scratch block as \<open>timerinit\<close> set them, so the next trap finds them.
\<close>

theorem timervec_keeps_timer_ready:
  assumes "timer_ready scratch cmp s"
  shows "timer_ready scratch cmp (timervec (m_trap cause tval s))"
  by (rule timervec_keeps [OF assms])

lemma hartid_small:
  assumes "unat h < 8"
  shows "scast (ucast (h :: u64) :: u32) = h"
proof -
  have "unat h \<in> {0, 1, 2, 3, 4, 5, 6, 7}" using assms by auto
  then have "h \<in> {0, 1, 2, 3, 4, 5, 6, 7}" by (auto simp: word_unat_eq_iff)
  moreover have "\<forall>h \<in> {0, 1, 2, 3, 4, 5, 6, 7 :: u64}. scast (ucast h :: u32) = h" by code_simp
  ultimately show ?thesis by blast
qed

lemma clint_below_kernel:
  assumes "unat h < 8"
  shows "unat (CLINT_MTIMECMP h) < 0x80000000" "unat CLINT_MTIME < 0x80000000"
  using assms
  by (simp_all add: CLINT_MTIMECMP_def CLINT_MTIME_def CLINT_BASE_def unat_word_ariths)

lemma kernel_address:
  assumes "0x80000000 \<le> unat ts" "unat ts < 0x88000000" "j \<le> 0x400"
  shows "0x80000000 \<le> unat (ts + of_nat j :: u64)"
  using assms by (simp add: unat_word_ariths unat_of_nat)

lemma timerinit_facts:
  assumes h: "unat (mhartid s) < 8"
    and ts: "0x80000000 \<le> unat timer_scratch" "unat timer_scratch < 0x88000000"
  shows "timer_ready (timer_scratch + 48 * mhartid s) (CLINT_MTIMECMP (mhartid s))
      (timerinit timer_scratch vec s)
    \<and> dmem (timerinit timer_scratch vec s) (CLINT_MTIMECMP (mhartid s)) = dmem s CLINT_MTIME + 25000
    \<and> mtvec (timerinit timer_scratch vec s) = vec
    \<and> bit (mstatus (timerinit timer_scratch vec s)) 3
    \<and> bit (mie (timerinit timer_scratch vec s)) 7"
proof -
  let ?h = "mhartid s" and ?c = "CLINT_MTIMECMP (mhartid s)"
  let ?b = "timer_scratch + 48 * mhartid s"
  have far: "?b + of_nat j \<noteq> a" if "unat a < 0x80000000" "j \<le> 64" for a j
  proof
    assume "?b + of_nat j = a"
    moreover have "?b + of_nat j = timer_scratch + of_nat (48 * unat ?h + j)"
      by simp
    moreover have "48 * unat ?h + j \<le> 0x400" using h that(2) by simp
    ultimately show False using kernel_address [OF ts, of "48 * unat ?h + j"] that(1) by simp
  qed
  note c = far [OF clint_below_kernel(1) [OF h]] and t = far [OF clint_below_kernel(2) [OF h]]
  have ne: "?c \<noteq> ?b" "?c \<noteq> ?b + 8" "?c \<noteq> ?b + 16" "?c \<noteq> ?b + 24" "?c \<noteq> ?b + 32" "?c \<noteq> ?b + 40"
      "CLINT_MTIME \<noteq> ?b" "CLINT_MTIME \<noteq> ?b + 8" "CLINT_MTIME \<noteq> ?b + 16"
    using c [of 0] c [of 8] c [of 16] c [of 24] c [of 32] c [of 40] t [of 0] t [of 8] t [of 16]
    by auto
  show ?thesis
    using ne by (simp add: timerinit_def Let_def hartid_small [OF h] sd_def timer_ready_def
        save_area_def bit_or_iff bit_push_bit_iff)
qed

text \<open>
  \<open>timerinit\<close> establishes what the handler relies on, for up to eight harts whose scratch
  array lies in the kernel's RAM: the scratch block holds the comparator's address, the interval
  and the address of \<open>mtime\<close>, none of the device registers overlaps the block, the comparator is
  armed, \<open>mtvec\<close> holds the handler, and MIE and MTIE are set.
\<close>

theorem timerinit_ready:
  assumes h: "unat (mhartid s) < 8"
    and ts: "0x80000000 \<le> unat timer_scratch" "unat timer_scratch < 0x88000000"
  shows "timer_ready (timer_scratch + 48 * mhartid s) (CLINT_MTIMECMP (mhartid s))
      (timerinit timer_scratch vec s)
    \<and> dmem (timerinit timer_scratch vec s) (CLINT_MTIMECMP (mhartid s)) = dmem s CLINT_MTIME + 25000
    \<and> mtvec (timerinit timer_scratch vec s) = vec
    \<and> bit (mstatus (timerinit timer_scratch vec s)) 3
    \<and> bit (mie (timerinit timer_scratch vec s)) 7"
  by (rule timerinit_facts [OF h ts])

text \<open>
  After a tick the comparator lies in the future, however late the tick was served, so
  the timer interrupt is no longer pending when the handler returns (no interrupt storm).
\<close>

theorem tick_not_pending_on_return:
  assumes "timer_ready scratch cmp s" "is_mtimer cause" "unat (dmem s CLINT_MTIME) + 25000 < 2 ^ 64"
  shows "dmem s CLINT_MTIME < dmem (timervec (m_trap cause tval s)) cmp"
  unfolding mtimer_tick_eq [OF assms(1,2)] using assms(3)
  by (simp add: word_less_nat_alt unat_word_ariths)

lemma acknowledge:
  assumes "sip s = put_bit 1 True v"
  shows "csrw_sip (sip s AND NOT 2) s = s\<lparr>sip := put_bit 1 False v\<rparr>"
proof -
  have "\<not> bit (sip s AND NOT 2) 1" by (simp only: bit_and_iff bit_word_not bit_2) simp
  moreover have "put_bit 1 False (put_bit 1 True v) = put_bit 1 False v"
    by (rule bit_word_eqI) (simp add: bit_put_bit)
  ultimately show ?thesis unfolding csrw_sip_def assms by (simp only:)
qed

text \<open>
  The tick that the handler hands over through \<open>sip\<close> is taken by the supervisor as
  cause 1, enters at \<open>stvec\<close>, and \<open>devintr\<close> runs \<open>clockintr\<close> once on a state whose SSIP is
  acknowledged, returning 2 (timer).
\<close>

theorem tick_reaches_supervisor_once:
  assumes "timer_ready scratch cmp s" "is_mtimer cause"
  shows "let u = s_trap 0x8000000000000001 0 (timervec (m_trap cause tval s))
    in bit (sip u) 1 \<and> pc u = stvec s AND NOT 3 \<and> prv u = PrivS
       \<and> devintr_soft clockintr other u w =
           map_option (\<lambda>(s, w). (2, s, w)) (clockintr (u\<lparr>sip := put_bit 1 False (sip s)\<rparr>) w)"
proof -
  let ?u = "s_trap 0x8000000000000001 0 (timervec (m_trap cause tval s))"
  have sip: "sip ?u = put_bit 1 True (sip s)"
    unfolding mtimer_tick_eq [OF assms] by (simp add: s_trap_def)
  have "pc ?u = stvec s AND NOT 3" "prv ?u = PrivS" "scause ?u = 0x8000000000000001"
    unfolding mtimer_tick_eq [OF assms] by (simp_all add: s_trap_def)
  then show ?thesis
    unfolding Let_def devintr_soft_def acknowledge [OF sip] by (simp add: sip bit_put_bit)
qed


section \<open>Witnesses\<close>

text \<open>A hart in user mode after \<open>timerinit\<close> at typical addresses, at time 7.\<close>

definition reset_hart :: hart where
  "reset_hart = \<lparr>ra0 = 10, ra1 = 11, ra2 = 12, ra3 = 13, pc = 0x80000000, prv = PrivU,
     mhartid = 1, mstatus = 0x22, mtvec = 0, mie = 0, mscratch = 0, mcause = 0, mepc = 0, mtval = 0,
     scause = 0, sepc = 0, stval = 0, stvec = 0x80005000, sip = 0,
     dmem = (\<lambda>a. if a = 0x0200BFF8 then 7 else 0)\<rparr>"

definition armed_hart :: hart where
  "armed_hart = timerinit 0x80009000 0x80005100 reset_hart"

lemma timerinit_ready_witness:
  "timer_ready (0x80009000 + 48 * mhartid reset_hart) (CLINT_MTIMECMP (mhartid reset_hart)) armed_hart
   \<and> mtvec armed_hart = 0x80005100 \<and> bit (mie armed_hart) 7"
  using timerinit_ready [of reset_hart "0x80009000" "0x80005100"]
  by (simp add: armed_hart_def reset_hart_def)

lemma armed_hart_eq:
  "armed_hart = reset_hart\<lparr>mscratch := 0x80009030, mtvec := 0x80005100, mstatus := 0x2A, mie := 0x80,
     dmem := (dmem reset_hart)(0x02004008 := 25007, 0x80009048 := 0x02004008, 0x80009050 := 25000,
       0x80009058 := 0x0200BFF8)\<rparr>"
proof -
  have "scast (ucast (1 :: u64) :: u32) = (1 :: u64)" by code_simp
  then show ?thesis
    by (simp add: armed_hart_def timerinit_def reset_hart_def Let_def sd_def CLINT_MTIMECMP_def
        CLINT_MTIME_def CLINT_BASE_def)
qed

lemma armed_hart_ready: "timer_ready 0x80009030 0x02004008 armed_hart"
  by (simp add: armed_hart_eq timer_ready_def save_area_def reset_hart_def CLINT_MTIME_def
      CLINT_BASE_def)

lemma machine_timer_cause: "is_mtimer 0x8000000000000007"
  by code_simp

lemma ecall_cause: "\<not> is_mtimer 8"
  by code_simp

theorem reflect_is_delegation_witness:
  "supervisor_equal (save_area 0x80009030) (timervec (m_trap 8 0 armed_hart)) (s_trap 8 0 armed_hart)"
  using reflect_is_delegation [of armed_hart 8 0] ecall_cause
  by (simp add: armed_hart_eq reset_hart_def)

theorem timer_tick_resumes_witness:
  "dmem (timervec (m_trap 0x8000000000000007 0 armed_hart)) 0x02004008 = 25007"
  using timer_tick_resumes [OF armed_hart_ready machine_timer_cause]
  by (simp add: armed_hart_eq reset_hart_def CLINT_MTIME_def CLINT_BASE_def)

theorem timervec_keeps_timer_ready_witness:
  "timer_ready 0x80009030 0x02004008 (timervec (m_trap 8 0 armed_hart))"
  by (rule timervec_keeps_timer_ready [OF armed_hart_ready])

theorem tick_not_pending_on_return_witness:
  "dmem armed_hart CLINT_MTIME < dmem (timervec (m_trap 0x8000000000000007 0 armed_hart)) 0x02004008"
  by (rule tick_not_pending_on_return [OF armed_hart_ready machine_timer_cause])
     (simp add: armed_hart_eq reset_hart_def CLINT_MTIME_def CLINT_BASE_def)

theorem tick_reaches_supervisor_once_witness:
  "bit (sip (s_trap 0x8000000000000001 0 (timervec (m_trap 0x8000000000000007 0 armed_hart)))) 1"
  using tick_reaches_supervisor_once [OF armed_hart_ready machine_timer_cause, of 0 "\<lambda>s w. Some (s, w)" "\<lambda>s w. None" "()"]
  by (simp add: Let_def)

end
