(* ===== verification/Blkdev.thy ===== *)
theory Blkdev
  imports Prelude
begin

text \<open>
  The block device driver \<open>xv6/blkdev.c\<close> and the layout of its buffers (\<open>kernel/buf.h\<close> in
  \<open>xv6/0001-xv6-rocket-port.patch\<close>). The driver is written over an abstract register interface
  (\<open>mmio\<close>); the properties run it against the register file that the driver's opening comment
  documents, with any finite latency for each request. The size of a block, \<open>BSIZE\<close>, is a
  parameter (\<open>fs.h\<close> is not part of the repository).
\<close>

section \<open>Registers\<close>

definition BLKDEV0 :: u64 where "BLKDEV0 = 0x10015000"
definition BLKDEV_BASE :: u64 where "BLKDEV_BASE = BLKDEV0"
definition BLKDEV_ADDR :: u64 where "BLKDEV_ADDR = BLKDEV_BASE + 0x00"
definition BLKDEV_OFFSET :: u64 where "BLKDEV_OFFSET = BLKDEV_BASE + 0x08"
definition BLKDEV_LEN :: u64 where "BLKDEV_LEN = BLKDEV_BASE + 0x0C"
definition BLKDEV_WRITE :: u64 where "BLKDEV_WRITE = BLKDEV_BASE + 0x10"
definition BLKDEV_ALLOC :: u64 where "BLKDEV_ALLOC = BLKDEV_BASE + 0x11"
definition BLKDEV_NALLOC :: u64 where "BLKDEV_NALLOC = BLKDEV_BASE + 0x12"
definition BLKDEV_COMPLETE :: u64 where "BLKDEV_COMPLETE = BLKDEV_BASE + 0x13"
definition BLKDEV_NCOMPLETE :: u64 where "BLKDEV_NCOMPLETE = BLKDEV_BASE + 0x14"
definition BLKDEV_NSECTORS :: u64 where "BLKDEV_NSECTORS = BLKDEV_BASE + 0x18"
definition BLKDEV_MAX_LEN :: u64 where "BLKDEV_MAX_LEN = BLKDEV_BASE + 0x1C"

lemmas blkdev_regs = BLKDEV0_def BLKDEV_BASE_def BLKDEV_ADDR_def BLKDEV_OFFSET_def BLKDEV_LEN_def
  BLKDEV_WRITE_def BLKDEV_ALLOC_def BLKDEV_NALLOC_def BLKDEV_COMPLETE_def BLKDEV_NCOMPLETE_def
  BLKDEV_NSECTORS_def BLKDEV_MAX_LEN_def

definition SECTOR_SIZE :: nat where "SECTOR_SIZE = 512"

definition SECTORS_PER_BLOCK :: "nat \<Rightarrow> u32" where
  "SECTORS_PER_BLOCK bsize = of_nat (bsize div SECTOR_SIZE)"

text \<open>\<open>R8\<close>, \<open>R32\<close>, \<open>W8\<close>, \<open>W32\<close>, \<open>W64\<close> and the memory barrier, on the state \<open>'d\<close> of the other side.\<close>

record 'd mmio =
  R8 :: "u64 \<Rightarrow> 'd \<Rightarrow> u8 \<times> 'd"
  R32 :: "u64 \<Rightarrow> 'd \<Rightarrow> u32 \<times> 'd"
  W8 :: "u64 \<Rightarrow> u8 \<Rightarrow> 'd \<Rightarrow> 'd"
  W32 :: "u64 \<Rightarrow> u32 \<Rightarrow> 'd \<Rightarrow> 'd"
  W64 :: "u64 \<Rightarrow> u64 \<Rightarrow> 'd \<Rightarrow> 'd"
  sync :: "'d \<Rightarrow> 'd"

section \<open>The driver\<close>

text \<open>
  The driver's calls into the kernel, in order; \<open>printk\<close>'s are told apart by their arguments.
  \<open>blkdev_nsectors\<close> is the driver's static variable.
\<close>

datatype kcall =
    Initlock
  | Acquire
  | Release
  | PrintkSectors u32 u32 u32
  | PrintkNoStore
  | PrintkStale int

record 'd kernel =
  device :: 'd
  blkdev_nsectors :: u32
  kcalls :: "kcall list"

definition kcall :: "kcall \<Rightarrow> 'd kernel \<Rightarrow> 'd kernel" where
  "kcall c k = k\<lparr>kcalls := kcalls k @ [c]\<rparr>"

text \<open>\<open>while (R8(BLKDEV_NCOMPLETE) != 0) { (void)R8(BLKDEV_COMPLETE); stale++; }\<close>\<close>

partial_function (option) blkdev_drain :: "'d mmio \<Rightarrow> int \<Rightarrow> 'd \<Rightarrow> (int \<times> 'd) option" where
  "blkdev_drain m stale d =
     (case R8 m BLKDEV_NCOMPLETE d of (n, d) \<Rightarrow>
        if n \<noteq> 0 then blkdev_drain m (stale + 1) (snd (R8 m BLKDEV_COMPLETE d)) else Some (stale, d))"

definition blkdev_init :: "'d mmio \<Rightarrow> 'd kernel \<Rightarrow> 'd kernel option" where
  "blkdev_init m k =
     (let k = kcall Initlock k;
          (n, d) = R32 m BLKDEV_NSECTORS (device k);
          k = k\<lparr>blkdev_nsectors := n\<rparr>;
          (max_len, d) = R32 m BLKDEV_MAX_LEN d;
          k = kcall (PrintkSectors (blkdev_nsectors k)
                (blkdev_nsectors k div (1024 * 1024 div of_nat SECTOR_SIZE)) max_len) k;
          k = (if blkdev_nsectors k = 0 then kcall PrintkNoStore k else k)
      in case blkdev_drain m 0 d of
           None \<Rightarrow> None
         | Some (stale, d) \<Rightarrow>
             let k = k\<lparr>device := d\<rparr>
             in Some (if stale \<noteq> 0 then kcall (PrintkStale stale) k else k))"

definition blkdev_xfer :: "'d mmio \<Rightarrow> nat \<Rightarrow> u64 \<Rightarrow> u32 \<Rightarrow> int \<Rightarrow> 'd \<Rightarrow> 'd option" where
  "blkdev_xfer m bsize pa offset write d =
     (case spin (R8 m BLKDEV_NALLOC) (\<lambda>v. v \<noteq> 0) d of
        None \<Rightarrow> None
      | Some (_, d) \<Rightarrow>
          let d = W64 m BLKDEV_ADDR pa d;
              d = W32 m BLKDEV_OFFSET offset d;
              d = W32 m BLKDEV_LEN (SECTORS_PER_BLOCK bsize) d;
              d = W8 m BLKDEV_WRITE (if write \<noteq> 0 then 1 else 0) d;
              d = sync m d;
              d = snd (R8 m BLKDEV_ALLOC d)
          in case spin (R8 m BLKDEV_NCOMPLETE) (\<lambda>v. v \<noteq> 0) d of
               None \<Rightarrow> None
             | Some (_, d) \<Rightarrow>
                 let d = snd (R8 m BLKDEV_COMPLETE d)
                 in Some (sync m d))"

text \<open>The fields of \<open>struct buf\<close> the driver uses; \<open>data\<close> is the address of the field.\<close>

record buf =
  valid :: int
  disk :: int
  blockno :: u32
  data :: u64

text \<open>\<open>panic\<close> does not return: its message is the outcome of the call.\<close>

definition blkdev_rw :: "'d mmio \<Rightarrow> nat \<Rightarrow> buf \<Rightarrow> int \<Rightarrow> 'd kernel \<Rightarrow> (string + buf \<times> 'd kernel) option" where
  "blkdev_rw m bsize b write k =
     (let pa = data b;
          offset = blockno b * SECTORS_PER_BLOCK bsize
      in if blkdev_nsectors k \<noteq> 0 \<and> offset + SECTORS_PER_BLOCK bsize > blkdev_nsectors k
         then Some (Inl ''blkdev_rw: out of range'')
         else let k = kcall Acquire k
              in case blkdev_xfer m bsize pa offset write (device k) of
                   None \<Rightarrow> None
                 | Some d \<Rightarrow>
                     let k = k\<lparr>device := d\<rparr>; b = b\<lparr>disk := 0\<rparr>
                     in Some (Inr (b, kcall Release k)))"

definition blkdev_intr :: "'d kernel \<Rightarrow> 'd kernel" where
  "blkdev_intr k = k"

section \<open>The documented device\<close>

text \<open>
  The register file of the comment at the head of \<open>blkdev.c\<close>. A request is launched with the
  register contents of the moment \<open>allocate\<close> is read, runs for any number of further register
  reads (the head of \<open>delays\<close> for each request), then its DMA happens and its tag waits to be popped.
  \<open>misused\<close> records a read of \<open>allocate\<close> without a free tracker or of \<open>complete\<close> without a finished
  request. A request is served whatever its length: the driver prints \<open>max_len\<close> and sends requests of one
  block only. What the DMA does to memory when its address is not aligned to 64 bytes is the
  parameter \<open>unaligned\<close> (the comment in \<open>buf.h\<close>: some bytes are silently not written).
\<close>

record request =
  rq_addr :: u64
  rq_offset :: u32
  rq_len :: u32
  rq_write :: bool

record bdev =
  reg_addr :: u64
  reg_offset :: u32
  reg_len :: u32
  reg_write :: u8
  free :: "u8 list"
  running :: "(u8 \<times> request \<times> nat) list"
  finished :: "u8 list"
  delays :: "nat list"
  nsectors :: u32
  max_len :: u32
  ram :: "u64 \<Rightarrow> u8"
  store :: "nat \<Rightarrow> u8"
  misused :: bool

text \<open>Byte \<open>i\<close> of the backing file belongs to sector \<open>i div 512\<close>.\<close>

definition dma_ram :: "(request \<Rightarrow> (nat \<Rightarrow> u8) \<Rightarrow> (u64 \<Rightarrow> u8) \<Rightarrow> u64 \<Rightarrow> u8) \<Rightarrow> request \<Rightarrow>
    (nat \<Rightarrow> u8) \<Rightarrow> (u64 \<Rightarrow> u8) \<Rightarrow> u64 \<Rightarrow> u8" where
  "dma_ram unaligned q file mem =
     (if rq_write q then mem
      else if rq_addr q mod 64 = 0
      then (\<lambda>a. if unat (a - rq_addr q) < 512 * unat (rq_len q)
               then file (512 * unat (rq_offset q) + unat (a - rq_addr q)) else mem a)
      else unaligned q file mem)"

definition dma_store :: "request \<Rightarrow> (u64 \<Rightarrow> u8) \<Rightarrow> (nat \<Rightarrow> u8) \<Rightarrow> nat \<Rightarrow> u8" where
  "dma_store q mem file =
     (if rq_write q
      then (\<lambda>i. if 512 * unat (rq_offset q) \<le> i \<and> i < 512 * unat (rq_offset q) + 512 * unat (rq_len q)
               then mem (rq_addr q + of_nat (i - 512 * unat (rq_offset q))) else file i)
      else file)"

definition dma :: "(request \<Rightarrow> (nat \<Rightarrow> u8) \<Rightarrow> (u64 \<Rightarrow> u8) \<Rightarrow> u64 \<Rightarrow> u8) \<Rightarrow> request \<Rightarrow> bdev \<Rightarrow> bdev" where
  "dma unaligned q d =
     d\<lparr>ram := dma_ram unaligned q (store d) (ram d), store := dma_store q (ram d) (store d)\<rparr>"

text \<open>The device makes a step towards finishing its oldest request at every register read.\<close>

definition bdev_tick :: "(request \<Rightarrow> (nat \<Rightarrow> u8) \<Rightarrow> (u64 \<Rightarrow> u8) \<Rightarrow> u64 \<Rightarrow> u8) \<Rightarrow> bdev \<Rightarrow> bdev" where
  "bdev_tick un d =
     (case running d of
        [] \<Rightarrow> d
      | (tag, q, 0) # qs \<Rightarrow> (dma un q d)\<lparr>running := qs, finished := finished d @ [tag]\<rparr>
      | (tag, q, Suc n) # qs \<Rightarrow> d\<lparr>running := (tag, q, n) # qs\<rparr>)"

definition bdev_allocate :: "bdev \<Rightarrow> u8 \<times> bdev" where
  "bdev_allocate d =
     (case free d of
        [] \<Rightarrow> (0, d\<lparr>misused := True\<rparr>)
      | tag # tags \<Rightarrow>
          (tag, d\<lparr>free := tags,
             running := running d @ [(tag, \<lparr>rq_addr = reg_addr d, rq_offset = reg_offset d,
               rq_len = reg_len d, rq_write = (reg_write d = 1)\<rparr>, hd (delays d @ [0]))],
             delays := tl (delays d)\<rparr>))"

definition bdev_complete :: "bdev \<Rightarrow> u8 \<times> bdev" where
  "bdev_complete d =
     (case finished d of
        [] \<Rightarrow> (0, d\<lparr>misused := True\<rparr>)
      | tag # tags \<Rightarrow> (tag, d\<lparr>finished := tags, free := free d @ [tag]\<rparr>))"

definition bdev_r8 :: "(request \<Rightarrow> (nat \<Rightarrow> u8) \<Rightarrow> (u64 \<Rightarrow> u8) \<Rightarrow> u64 \<Rightarrow> u8) \<Rightarrow> u64 \<Rightarrow> bdev \<Rightarrow> u8 \<times> bdev" where
  "bdev_r8 un a d =
     (let d = bdev_tick un d in
      if a = BLKDEV_ALLOC then bdev_allocate d
      else if a = BLKDEV_NALLOC then (of_nat (length (free d)), d)
      else if a = BLKDEV_COMPLETE then bdev_complete d
      else if a = BLKDEV_NCOMPLETE then (of_nat (length (finished d)), d)
      else (0, d))"

definition bdev_r32 :: "u64 \<Rightarrow> bdev \<Rightarrow> u32 \<times> bdev" where
  "bdev_r32 a d =
     (if a = BLKDEV_NSECTORS then (nsectors d, d)
      else if a = BLKDEV_MAX_LEN then (max_len d, d) else (0, d))"

definition bdev_ops :: "(request \<Rightarrow> (nat \<Rightarrow> u8) \<Rightarrow> (u64 \<Rightarrow> u8) \<Rightarrow> u64 \<Rightarrow> u8) \<Rightarrow> bdev mmio" where
  "bdev_ops un = \<lparr>
     R8 = bdev_r8 un,
     R32 = bdev_r32,
     W8 = (\<lambda>a v d. if a = BLKDEV_WRITE then d\<lparr>reg_write := v\<rparr> else d),
     W32 = (\<lambda>a v d. if a = BLKDEV_OFFSET then d\<lparr>reg_offset := v\<rparr>
              else if a = BLKDEV_LEN then d\<lparr>reg_len := v\<rparr> else d),
     W64 = (\<lambda>a v d. if a = BLKDEV_ADDR then d\<lparr>reg_addr := v\<rparr> else d),
     sync = id\<rparr>"

text \<open>Between transfers: every tracker is free.\<close>

definition bdev_idle :: "bdev \<Rightarrow> bool" where
  "bdev_idle d \<longleftrightarrow> running d = [] \<and> finished d = [] \<and> free d \<noteq> [] \<and> length (free d) < 256 \<and> \<not> misused d"


lemma bdev_ops_simps [simp]:
  "R8 (bdev_ops un) BLKDEV_ALLOC d = bdev_allocate (bdev_tick un d)"
  "R8 (bdev_ops un) BLKDEV_COMPLETE d = bdev_complete (bdev_tick un d)"
  "R8 (bdev_ops un) BLKDEV_NALLOC d = (of_nat (length (free (bdev_tick un d))), bdev_tick un d)"
  "R8 (bdev_ops un) BLKDEV_NCOMPLETE d = (of_nat (length (finished (bdev_tick un d))), bdev_tick un d)"
  "R32 (bdev_ops un) BLKDEV_NSECTORS d = (nsectors d, d)"
  "R32 (bdev_ops un) BLKDEV_MAX_LEN d = (max_len d, d)"
  "W64 (bdev_ops un) BLKDEV_ADDR pa d = d\<lparr>reg_addr := pa\<rparr>"
  "W32 (bdev_ops un) BLKDEV_OFFSET v d = d\<lparr>reg_offset := v\<rparr>"
  "W32 (bdev_ops un) BLKDEV_LEN v d = d\<lparr>reg_len := v\<rparr>"
  "W8 (bdev_ops un) BLKDEV_WRITE b d = d\<lparr>reg_write := b\<rparr>"
  "sync (bdev_ops un) d = d"
  by (simp_all add: bdev_ops_def bdev_r8_def bdev_r32_def Let_def blkdev_regs)

lemma dma_fields [simp]:
  "running (dma un q d) = running d" "finished (dma un q d) = finished d" "free (dma un q d) = free d"
  "delays (dma un q d) = delays d" "misused (dma un q d) = misused d"
  "nsectors (dma un q d) = nsectors d" "max_len (dma un q d) = max_len d"
  "reg_addr (dma un q d) = reg_addr d" "reg_offset (dma un q d) = reg_offset d"
  "reg_len (dma un q d) = reg_len d" "reg_write (dma un q d) = reg_write d"
  by (simp_all add: dma_def)

lemma dma_update [simp]:
  "dma un q (d\<lparr>running := r\<rparr>) = (dma un q d)\<lparr>running := r\<rparr>"
  "dma un q (d\<lparr>free := f\<rparr>) = (dma un q d)\<lparr>free := f\<rparr>"
  "dma un q (d\<lparr>delays := ds\<rparr>) = (dma un q d)\<lparr>delays := ds\<rparr>"
  "dma un q (d\<lparr>reg_addr := pa\<rparr>) = (dma un q d)\<lparr>reg_addr := pa\<rparr>"
  "dma un q (d\<lparr>reg_offset := v\<rparr>) = (dma un q d)\<lparr>reg_offset := v\<rparr>"
  "dma un q (d\<lparr>reg_len := v\<rparr>) = (dma un q d)\<lparr>reg_len := v\<rparr>"
  "dma un q (d\<lparr>reg_write := b\<rparr>) = (dma un q d)\<lparr>reg_write := b\<rparr>"
  by (simp_all add: dma_def)

lemma tick_simps [simp]:
  "running d = [] \<Longrightarrow> bdev_tick un d = d"
  "running d = (tag, q, 0) # qs \<Longrightarrow>
     bdev_tick un d = (dma un q d)\<lparr>running := qs, finished := finished d @ [tag]\<rparr>"
  "running d = (tag, q, Suc n) # qs \<Longrightarrow> bdev_tick un d = d\<lparr>running := (tag, q, n) # qs\<rparr>"
  by (simp_all add: bdev_tick_def)

lemma of_nat_u8_eq_0: "n < 256 \<Longrightarrow> (of_nat n :: u8) = 0 \<longleftrightarrow> n = 0"
  by (auto simp: word_of_nat_eq_0_iff dvd_def)

text \<open>Requests move from \<open>running\<close> to \<open>finished\<close>; none is lost.\<close>

lemma tick_tags:
  "length (running (bdev_tick un d)) + length (finished (bdev_tick un d)) =
     length (running d) + length (finished d)"
  by (auto simp: bdev_tick_def split: list.splits nat.splits)

definition awaiting :: "bdev \<Rightarrow> bool" where
  "awaiting d \<longleftrightarrow> running d \<noteq> [] \<and> length (running d) + length (finished d) < 256"

definition ticks_left :: "bdev \<Rightarrow> nat" where
  "ticks_left d = (case running d of [] \<Rightarrow> 0 | (_, _, n) # _ \<Rightarrow> n)"

text \<open>The device as the other side of the driver's completion loop.\<close>

interpretation ncomplete: poller "R8 (bdev_ops un) BLKDEV_NCOMPLETE" "\<lambda>v. v \<noteq> 0" awaiting ticks_left
  for un
proof
  fix d d' v
  assume d: "awaiting d" and "R8 (bdev_ops un) BLKDEV_NCOMPLETE d = (v, d')" and "\<not> v \<noteq> 0"
  then have d': "d' = bdev_tick un d" and z: "(of_nat (length (finished (bdev_tick un d))) :: u8) = 0"
    by auto
  have "length (finished (bdev_tick un d)) < 256"
    using tick_tags [of un d] d unfolding awaiting_def by linarith
  with z have "finished (bdev_tick un d) = []" by (simp add: of_nat_u8_eq_0)
  then obtain tag q n qs where r: "running d = (tag, q, Suc n) # qs"
    using d by (auto simp: bdev_tick_def awaiting_def split: list.splits nat.splits)
  show "awaiting d'" "ticks_left d' < ticks_left d"
    using d r unfolding d' by (simp_all add: awaiting_def ticks_left_def)
qed

lemma wait_for_completion:
  assumes "running d = (tag, q, n) # qs" "finished d = []" "length qs < 255"
  shows "spin (R8 (bdev_ops un) BLKDEV_NCOMPLETE) (\<lambda>v. v \<noteq> 0) d =
     Some (1, (dma un q d)\<lparr>running := qs, finished := [tag]\<rparr>)"
proof -
  let ?P = "\<lambda>u. \<exists>n. u = d\<lparr>running := (tag, q, n) # qs\<rparr>"
  have "awaiting d" using assms by (simp add: awaiting_def)
  moreover have "?P d" using assms by (intro exI [of _ n]) simp
  ultimately obtain w v w' where s: "spin (R8 (bdev_ops un) BLKDEV_NCOMPLETE) (\<lambda>v. v \<noteq> 0) d = Some (v, w')"
    and "?P w" and rd: "R8 (bdev_ops un) BLKDEV_NCOMPLETE w = (v, w')" and v: "v \<noteq> 0"
  proof (rule ncomplete.spin_ends [of d ?P un, THEN exE], goal_cases)
    case (1 u v u')
    then obtain n where u: "u = d\<lparr>running := (tag, q, n) # qs\<rparr>" by blast
    with 1 assms(2) show ?case by (cases n) auto
  next
    case (2 w)
    then show ?thesis using that by blast
  qed
  then obtain n where w: "w = d\<lparr>running := (tag, q, n) # qs\<rparr>" by blast
  with rd v w assms(2) have "v = 1 \<and> w' = (dma un q d)\<lparr>running := qs, finished := [tag]\<rparr>"
    by (cases n) auto
  with s show ?thesis by simp
qed


section \<open>A transfer\<close>

definition xfer_request :: "nat \<Rightarrow> u64 \<Rightarrow> u32 \<Rightarrow> int \<Rightarrow> request" where
  "xfer_request bsize pa offset write =
     \<lparr>rq_addr = pa, rq_offset = offset, rq_len = SECTORS_PER_BLOCK bsize, rq_write = (write \<noteq> 0)\<rparr>"

lemma blkdev_xfer_idle:
  assumes "bdev_idle d"
  shows "\<exists>d'. blkdev_xfer (bdev_ops un) bsize pa offset write d = Some d' \<and> bdev_idle d'
    \<and> ram d' = dma_ram un (xfer_request bsize pa offset write) (store d) (ram d)
    \<and> store d' = dma_store (xfer_request bsize pa offset write) (ram d) (store d)
    \<and> free d' = tl (free d) @ [hd (free d)]"
proof -
  obtain tag tags where f: "free d = tag # tags" and r: "running d = []" and fin: "finished d = []"
    and len: "length (free d) < 256" and m: "\<not> misused d"
    using assms by (cases "free d") (auto simp: bdev_idle_def)
  let ?q = "xfer_request bsize pa offset write"
  let ?d = "d\<lparr>reg_addr := pa, reg_offset := offset, reg_len := SECTORS_PER_BLOCK bsize,
    reg_write := if write \<noteq> 0 then 1 else 0\<rparr>"
  let ?e = "?d\<lparr>free := tags, running := [(tag, ?q, hd (delays d @ [0]))], delays := tl (delays d)\<rparr>"
  have free: "spin (R8 (bdev_ops un) BLKDEV_NALLOC) (\<lambda>v. v \<noteq> 0) d = Some (of_nat (length (free d)), d)"
    using f len r by (simp add: spin.simps [of _ _ d] of_nat_u8_eq_0 del: of_nat_Suc)
  have launch: "snd (R8 (bdev_ops un) BLKDEV_ALLOC ?d) = ?e"
    using f r by (simp add: bdev_allocate_def xfer_request_def)
  have wait: "spin (R8 (bdev_ops un) BLKDEV_NCOMPLETE) (\<lambda>v. v \<noteq> 0) ?e =
      Some (1, (dma un ?q ?e)\<lparr>running := [], finished := [tag]\<rparr>)"
    by (rule wait_for_completion) (simp_all add: fin)
  let ?z = "(dma un ?q ?e)\<lparr>running := [], finished := [], free := tags @ [tag]\<rparr>"
  have "blkdev_xfer (bdev_ops un) bsize pa offset write d = Some ?z"
    unfolding blkdev_xfer_def Let_def free option.case prod.case bdev_ops_simps(7-11) launch wait
    by (simp add: bdev_complete_def)
  moreover have "bdev_idle ?z"
    using len m f by (simp add: bdev_idle_def)
  ultimately show ?thesis
    using f by (intro exI [of _ ?z]) (simp add: dma_def)
qed

section \<open>Blocks\<close>

definition file_block :: "nat \<Rightarrow> (nat \<Rightarrow> u8) \<Rightarrow> nat \<Rightarrow> u8 list" where
  "file_block bsize file n = map (\<lambda>i. file (bsize * n + i)) [0..<bsize]"

definition ram_bytes :: "nat \<Rightarrow> (u64 \<Rightarrow> u8) \<Rightarrow> u64 \<Rightarrow> u8 list" where
  "ram_bytes n mem a = map (\<lambda>i. mem (a + of_nat i)) [0..<n]"

text \<open>The buffer names a block wholly within a store of \<open>n\<close> sectors.\<close>

definition block_in_range :: "nat \<Rightarrow> u32 \<Rightarrow> u32 \<Rightarrow> bool" where
  "block_in_range bsize n b \<longleftrightarrow> (unat b + 1) * (bsize div 512) \<le> unat n"

definition block_size :: "nat \<Rightarrow> bool" where
  "block_size bsize \<longleftrightarrow> 0 < bsize \<and> bsize mod 512 = 0"

lemma block_in_rangeD:
  assumes "block_in_range bsize n b" "block_size bsize"
  shows "bsize div 512 < 2 ^ 32" "unat (SECTORS_PER_BLOCK bsize) = bsize div 512"
    "unat (b * SECTORS_PER_BLOCK bsize) = unat b * (bsize div 512)"
    "unat (b * SECTORS_PER_BLOCK bsize + SECTORS_PER_BLOCK bsize) = (unat b + 1) * (bsize div 512)"
proof -
  have n: "unat n < 2 ^ 32" using unat_less_exp [of n] by simp
  have b: "unat b * (bsize div 512) + bsize div 512 \<le> unat n"
    using assms(1) by (simp add: block_in_range_def)
  show lt: "bsize div 512 < 2 ^ 32" using b n by linarith
  then show spb: "unat (SECTORS_PER_BLOCK bsize) = bsize div 512"
    by (simp add: SECTORS_PER_BLOCK_def SECTOR_SIZE_def unat_of_nat)
  have "unat b * (bsize div 512) < 2 ^ 32" using b n by linarith
  then show off: "unat (b * SECTORS_PER_BLOCK bsize) = unat b * (bsize div 512)"
    by (simp add: unat_word_ariths spb)
  have "unat b * (bsize div 512) + bsize div 512 < 2 ^ 32" using b n by linarith
  then show "unat (b * SECTORS_PER_BLOCK bsize + SECTORS_PER_BLOCK bsize) = (unat b + 1) * (bsize div 512)"
    unfolding unat_word_ariths(1) off spb by simp
qed

lemma in_range_passes:
  assumes "block_in_range bsize n b" "block_size bsize"
  shows "\<not> b * SECTORS_PER_BLOCK bsize + SECTORS_PER_BLOCK bsize > n"
  using assms(1) unfolding word_less_nat_alt block_in_rangeD(4) [OF assms] block_in_range_def by simp

lemma blkdev_rw_in_range:
  assumes "bdev_idle (device k)" "block_in_range bsize (blkdev_nsectors k) (blockno b)" "block_size bsize"
  shows "\<exists>k'. blkdev_rw (bdev_ops un) bsize b write k = Some (Inr (b\<lparr>disk := 0\<rparr>, k'))
    \<and> bdev_idle (device k') \<and> blkdev_nsectors k' = blkdev_nsectors k
    \<and> kcalls k' = kcalls k @ [Acquire, Release]
    \<and> ram (device k') = dma_ram un (xfer_request bsize (data b) (blockno b * SECTORS_PER_BLOCK bsize) write)
        (store (device k)) (ram (device k))
    \<and> store (device k') = dma_store (xfer_request bsize (data b) (blockno b * SECTORS_PER_BLOCK bsize) write)
        (ram (device k)) (store (device k))"
proof -
  from blkdev_xfer_idle [OF assms(1), of un bsize "data b" "blockno b * SECTORS_PER_BLOCK bsize" "write"]
  obtain d' where d': "blkdev_xfer (bdev_ops un) bsize (data b) (blockno b * SECTORS_PER_BLOCK bsize)
      write (device k) = Some d'" "bdev_idle d'"
    "ram d' = dma_ram un (xfer_request bsize (data b) (blockno b * SECTORS_PER_BLOCK bsize) write)
        (store (device k)) (ram (device k))"
    "store d' = dma_store (xfer_request bsize (data b) (blockno b * SECTORS_PER_BLOCK bsize) write)
        (ram (device k)) (store (device k))"
    by blast
  show ?thesis
    using in_range_passes [OF assms(2,3)] d'
    by (simp add: blkdev_rw_def Let_def kcall_def)
qed

lemma block_region:
  assumes "block_in_range bsize n b" "block_size bsize"
  shows "512 * unat (b * SECTORS_PER_BLOCK bsize) = bsize * unat b"
    "512 * unat (SECTORS_PER_BLOCK bsize) = bsize"
    "bsize < 2 ^ 64"
proof -
  have s: "512 * (bsize div 512) = bsize"
    using assms(2) by (auto simp: block_size_def)
  show "512 * unat (SECTORS_PER_BLOCK bsize) = bsize"
    by (simp add: block_in_rangeD(2) [OF assms] s)
  show "512 * unat (b * SECTORS_PER_BLOCK bsize) = bsize * unat b"
    unfolding block_in_rangeD(3) [OF assms] using s by (simp add: mult.left_commute mult.commute)
  show "bsize < 2 ^ 64"
    using block_in_rangeD(1) [OF assms] s by simp
qed

lemma unat_region_offset:
  "i < n \<Longrightarrow> n < 2 ^ 64 \<Longrightarrow> unat (a + of_nat i - a :: u64) = i"
  by (simp add: unat_of_nat)

lemma rw_reads_block:
  assumes "bdev_idle (device k)" "block_in_range bsize (blkdev_nsectors k) (blockno b)" "block_size bsize"
    and "data b mod 64 = 0"
  shows "\<exists>k'. blkdev_rw (bdev_ops un) bsize b 0 k = Some (Inr (b\<lparr>disk := 0\<rparr>, k'))
    \<and> bdev_idle (device k') \<and> kcalls k' = kcalls k @ [Acquire, Release]
    \<and> blkdev_nsectors k' = blkdev_nsectors k \<and> ram_bytes bsize (ram (device k')) (data b) = file_block bsize (store (device k)) (unat (blockno b))
    \<and> (\<forall>a. bsize \<le> unat (a - data b) \<longrightarrow> ram (device k') a = ram (device k) a)
    \<and> store (device k') = store (device k)"
proof -
  note reg = block_region [OF assms(2,3)]
  obtain k' where k': "blkdev_rw (bdev_ops un) bsize b 0 k = Some (Inr (b\<lparr>disk := 0\<rparr>, k'))"
    "bdev_idle (device k') \<and> kcalls k' = kcalls k @ [Acquire, Release]"
    "blkdev_nsectors k' = blkdev_nsectors k"
    "ram (device k') = dma_ram un (xfer_request bsize (data b) (blockno b * SECTORS_PER_BLOCK bsize) 0)
        (store (device k)) (ram (device k))"
    "store (device k') = dma_store (xfer_request bsize (data b) (blockno b * SECTORS_PER_BLOCK bsize) 0)
        (ram (device k)) (store (device k))"
    using blkdev_rw_in_range [OF assms(1-3), of un 0] by blast
  have "ram_bytes bsize (ram (device k')) (data b) = file_block bsize (store (device k)) (unat (blockno b))"
    unfolding ram_bytes_def file_block_def k'(4)
    using reg(3) by (auto simp: dma_ram_def xfer_request_def assms(4) reg(1,2) unat_of_nat)
  with k' show ?thesis
    by (simp add: dma_ram_def dma_store_def xfer_request_def assms(4) reg(2))
qed

lemma rw_writes_block:
  assumes "bdev_idle (device k)" "block_in_range bsize (blkdev_nsectors k) (blockno b)" "block_size bsize"
  shows "\<exists>k'. blkdev_rw (bdev_ops un) bsize b 1 k = Some (Inr (b\<lparr>disk := 0\<rparr>, k'))
    \<and> bdev_idle (device k') \<and> kcalls k' = kcalls k @ [Acquire, Release]
    \<and> blkdev_nsectors k' = blkdev_nsectors k \<and> file_block bsize (store (device k')) (unat (blockno b)) = ram_bytes bsize (ram (device k)) (data b)
    \<and> (\<forall>n. n \<noteq> unat (blockno b) \<longrightarrow>
         file_block bsize (store (device k')) n = file_block bsize (store (device k)) n)
    \<and> ram (device k') = ram (device k)"
proof -
  note reg = block_region [OF assms(2,3)]
  let ?n = "unat (blockno b)"
  obtain k' where k': "blkdev_rw (bdev_ops un) bsize b 1 k = Some (Inr (b\<lparr>disk := 0\<rparr>, k'))"
    "bdev_idle (device k') \<and> kcalls k' = kcalls k @ [Acquire, Release]"
    "blkdev_nsectors k' = blkdev_nsectors k"
    "ram (device k') = dma_ram un (xfer_request bsize (data b) (blockno b * SECTORS_PER_BLOCK bsize) 1)
        (store (device k)) (ram (device k))"
    "store (device k') = dma_store (xfer_request bsize (data b) (blockno b * SECTORS_PER_BLOCK bsize) 1)
        (ram (device k)) (store (device k))"
    using blkdev_rw_in_range [OF assms(1-3), of un 1] by blast
  have new: "store (device k') i =
      (if bsize * ?n \<le> i \<and> i < bsize * ?n + bsize
       then ram (device k) (data b + of_nat (i - bsize * ?n)) else store (device k) i)" for i
    unfolding k'(5) by (simp add: dma_store_def xfer_request_def reg(1,2))
  have "file_block bsize (store (device k')) n = file_block bsize (store (device k)) n" if "n \<noteq> ?n" for n
  proof -
    have "\<not> (bsize * ?n \<le> bsize * n + i \<and> bsize * n + i < bsize * ?n + bsize)" if i: "i < bsize" for i
    proof (cases "n < ?n")
      case True
      then have "bsize * (n + 1) \<le> bsize * ?n" by (intro mult_le_mono) auto
      with i show ?thesis by simp
    next
      case False
      with \<open>n \<noteq> ?n\<close> have "bsize * (?n + 1) \<le> bsize * n" by (intro mult_le_mono) auto
      then show ?thesis by simp
    qed
    then show ?thesis unfolding file_block_def new by (intro map_cong refl if_not_P) simp
  qed
  moreover have "file_block bsize (store (device k')) ?n = ram_bytes bsize (ram (device k)) (data b)"
    by (simp add: file_block_def ram_bytes_def new)
  ultimately show ?thesis
    using k' by (simp add: dma_ram_def xfer_request_def)
qed


section \<open>The range check\<close>

lemma rw_same_offset:
  assumes "blockno c * SECTORS_PER_BLOCK bsize = blockno b * SECTORS_PER_BLOCK bsize" "data c = data b"
    and "blkdev_rw m bsize c write k = Some (Inr (c', k'))"
  shows "blkdev_rw m bsize b write k = Some (Inr (b\<lparr>disk := 0\<rparr>, k'))"
  using assms unfolding blkdev_rw_def Let_def
  by (auto split: if_splits option.splits)

text \<open>
  The offset and its end are 32-bit, so with 1024-byte blocks block number \<open>2^31\<close> passes
  the range check although it lies outside every store, and a write to it overwrites block 0.
\<close>

theorem range_check_wraps:
  assumes "bdev_idle (device k)" "2 \<le> blkdev_nsectors k" "blockno b = 0x80000000"
  shows "\<not> block_in_range 1024 (blkdev_nsectors k) (blockno b)
    \<and> (\<exists>k'. blkdev_rw (bdev_ops un) 1024 b 1 k = Some (Inr (b\<lparr>disk := 0\<rparr>, k'))
         \<and> file_block 1024 (store (device k')) 0 = ram_bytes 1024 (ram (device k)) (data b))"
proof
  have "unat (blkdev_nsectors k) < 2 ^ 32" using unat_less_exp [of "blkdev_nsectors k"] by simp
  then show "\<not> block_in_range 1024 (blkdev_nsectors k) (blockno b)"
    by (simp add: block_in_range_def assms(3))
  let ?c = "b\<lparr>blockno := 0\<rparr>"
  have "block_in_range 1024 (blkdev_nsectors k) (blockno ?c)"
    using assms(2) by (simp add: block_in_range_def word_le_nat_alt)
  moreover have "block_size 1024" by (simp add: block_size_def)
  ultimately obtain k' where k': "blkdev_rw (bdev_ops un) 1024 ?c 1 k = Some (Inr (?c\<lparr>disk := 0\<rparr>, k'))"
      "file_block 1024 (store (device k')) 0 = ram_bytes 1024 (ram (device k)) (data ?c)"
    using rw_writes_block [of k 1024 ?c un] assms(1) by auto
  have "blkdev_rw (bdev_ops un) 1024 b 1 k = Some (Inr (b\<lparr>disk := 0\<rparr>, k'))"
    by (rule rw_same_offset [OF _ _ k'(1)])
       (simp_all add: assms(3) SECTORS_PER_BLOCK_def SECTOR_SIZE_def)
  with k'(2) show "\<exists>k'. blkdev_rw (bdev_ops un) 1024 b 1 k = Some (Inr (b\<lparr>disk := 0\<rparr>, k'))
      \<and> file_block 1024 (store (device k')) 0 = ram_bytes 1024 (ram (device k)) (data b)"
    by auto
qed

text \<open>
  As long as the end of the block fits in 32 bits of sectors, \<open>blkdev_rw\<close> panics if and
  only if the block is not wholly inside the store.
\<close>

theorem range_check_exact:
  assumes "bdev_idle (device k)" "block_size bsize" "blkdev_nsectors k \<noteq> 0"
    and "(unat (blockno b) + 1) * (bsize div 512) < 2 ^ 32"
  shows "blkdev_rw (bdev_ops un) bsize b write k = Some (Inl ''blkdev_rw: out of range'')
    \<longleftrightarrow> \<not> block_in_range bsize (blkdev_nsectors k) (blockno b)"
proof (cases "block_in_range bsize (blkdev_nsectors k) (blockno b)")
  case True
  with blkdev_rw_in_range [OF assms(1) True assms(2), of un "write"] show ?thesis by auto
next
  case False
  let ?s = "bsize div 512"
  have s: "unat (SECTORS_PER_BLOCK bsize) = ?s"
    using assms(4) by (simp add: SECTORS_PER_BLOCK_def SECTOR_SIZE_def unat_of_nat)
  have "unat (blockno b * SECTORS_PER_BLOCK bsize + SECTORS_PER_BLOCK bsize) = (unat (blockno b) + 1) * ?s"
    using assms(4) unfolding unat_word_ariths s by simp
  with False have "blockno b * SECTORS_PER_BLOCK bsize + SECTORS_PER_BLOCK bsize > blkdev_nsectors k"
    unfolding word_less_nat_alt block_in_range_def by simp
  with assms(3) False show ?thesis by (simp add: blkdev_rw_def Let_def)
qed

text \<open>
  C29: What the range check does. As long as the end of the block fits in 32 bits of sectors,
  \<open>blkdev_rw\<close> panics if and only if the block is not wholly inside the store; but the offset and its end are
  32-bit, so with 1024-byte blocks block number \<open>2^31\<close> passes although it lies outside every store, and a
  write to it overwrites block 0.
\<close>

theorem range_check_limits:
  assumes "bdev_idle (device k)" "block_size bsize" "2 \<le> blkdev_nsectors k"
  shows "((unat (blockno b) + 1) * (bsize div 512) < 2 ^ 32 \<longrightarrow>
      (blkdev_rw (bdev_ops un) bsize b write k = Some (Inl ''blkdev_rw: out of range'')
        \<longleftrightarrow> \<not> block_in_range bsize (blkdev_nsectors k) (blockno b)))
    \<and> (blockno b = 0x80000000 \<longrightarrow> \<not> block_in_range 1024 (blkdev_nsectors k) (blockno b)
      \<and> (\<exists>k'. blkdev_rw (bdev_ops un) 1024 b 1 k = Some (Inr (b\<lparr>disk := 0\<rparr>, k'))
         \<and> file_block 1024 (store (device k')) 0 = ram_bytes 1024 (ram (device k)) (data b)))"
proof -
  have "blkdev_nsectors k \<noteq> 0" using assms(3) by auto
  with range_check_exact [OF assms(1,2)] range_check_wraps [OF assms(1,3)] show ?thesis by blast
qed

section \<open>Initialisation\<close>

lemma drain_finished:
  assumes "running d = []" "length (finished d) < 256"
  shows "blkdev_drain (bdev_ops un) stale d = Some (stale + int (length (finished d)),
     d\<lparr>finished := [], free := free d @ finished d\<rparr>)"
  using assms
proof (induction "finished d" arbitrary: d stale)
  case Nil
  then show ?case by (simp add: blkdev_drain.simps [of _ _ d])
next
  case (Cons tag tags)
  let ?d = "d\<lparr>finished := tags, free := free d @ [tag]\<rparr>"
  note f = Cons.hyps(2) [symmetric]
  have "blkdev_drain (bdev_ops un) stale d = blkdev_drain (bdev_ops un) (stale + 1) ?d"
    using Cons.prems f by (subst blkdev_drain.simps) (simp add: bdev_complete_def of_nat_u8_eq_0 del: of_nat_Suc)
  also have "\<dots> = Some (stale + 1 + int (length tags), ?d\<lparr>finished := [], free := (free d @ [tag]) @ tags\<rparr>)"
    using Cons.hyps(1) [of ?d "stale + 1"] Cons.prems f by simp
  finally show ?case using f by simp
qed

lemma init_drains:
  assumes "running (device k) = []" "free (device k) @ finished (device k) \<noteq> []" "\<not> misused (device k)"
    and "length (free (device k)) + length (finished (device k)) < 256"
  shows "\<exists>k'. blkdev_init (bdev_ops un) k = Some k' \<and> bdev_idle (device k')
    \<and> blkdev_nsectors k' = nsectors (device k)
    \<and> ram (device k') = ram (device k) \<and> store (device k') = store (device k)
    \<and> kcalls k' = kcalls k
        @ [Initlock, PrintkSectors (nsectors (device k)) (nsectors (device k) div 2048) (max_len (device k))]
        @ (if nsectors (device k) = 0 then [PrintkNoStore] else [])
        @ (if finished (device k) = [] then [] else [PrintkStale (int (length (finished (device k))))])"
  using assms drain_finished [OF assms(1), of un 0]
  by (auto simp: blkdev_init_def Let_def kcall_def bdev_idle_def SECTOR_SIZE_def)

text \<open>A request that outlives the draining loop: two register reads per completion and one to end it.\<close>

lemma drain_running:
  assumes "running d = (tag, q, n) # qs" "2 * length (finished d) < n" "length (finished d) < 256"
  shows "blkdev_drain (bdev_ops un) stale d = Some (stale + int (length (finished d)),
     d\<lparr>running := (tag, q, n - Suc (2 * length (finished d))) # qs, finished := [], free := free d @ finished d\<rparr>)"
  using assms
proof (induction "finished d" arbitrary: d n stale)
  case Nil
  then obtain i where "n = Suc i" by (cases n) auto
  with Nil show ?case by (simp add: blkdev_drain.simps [of _ _ d])
next
  case (Cons old tags)
  note f = Cons.hyps(2) [symmetric]
  have "2 \<le> n" using Cons.prems(2) f by simp
  then obtain i where n: "n = Suc (Suc i)" by (metis Suc_le_D numeral_2_eq_2 Suc_le_mono)
  let ?d = "d\<lparr>running := (tag, q, i) # qs, finished := tags, free := free d @ [old]\<rparr>"
  have "blkdev_drain (bdev_ops un) stale d = blkdev_drain (bdev_ops un) (stale + 1) ?d"
    using Cons.prems f n by (subst blkdev_drain.simps) (simp add: bdev_complete_def of_nat_u8_eq_0 del: of_nat_Suc)
  also have "\<dots> = Some (stale + 1 + int (length tags),
     ?d\<lparr>running := (tag, q, i - Suc (2 * length tags)) # qs, finished := [], free := (free d @ [old]) @ tags\<rparr>)"
    using Cons.hyps(1) [of ?d i "stale + 1"] Cons.prems f n by simp
  finally show ?case using f n by simp
qed

text \<open>
  A transfer while a request of another run is still under way: it ends on the completion of that
  request, whose DMA has then happened, and leaves its own request running.
\<close>

lemma xfer_behind_request:
  assumes "running d = [(tag, q, n)]" "finished d = []" "free d \<noteq> []" "length (free d) < 256" "2 \<le> n"
    and "delays d = Suc e # ds"
  shows "\<exists>d'. blkdev_xfer (bdev_ops un) bsize pa offset write d = Some d'
    \<and> running d' = [(hd (free d), xfer_request bsize pa offset write, e)] \<and> finished d' = []
    \<and> free d' = tl (free d) @ [tag] \<and> misused d' = misused d
    \<and> ram d' = dma_ram un q (store d) (ram d) \<and> store d' = dma_store q (ram d) (store d)"
proof -
  obtain i where n: "n = Suc (Suc i)" using assms(5) by (metis Suc_le_D numeral_2_eq_2 Suc_le_mono)
  obtain t ts where f: "free d = t # ts" using assms(3) by (cases "free d") auto
  let ?q = "xfer_request bsize pa offset write"
  let ?w = "d\<lparr>running := [(tag, q, Suc i)]\<rparr>"
  let ?d = "?w\<lparr>reg_addr := pa, reg_offset := offset, reg_len := SECTORS_PER_BLOCK bsize,
    reg_write := if write \<noteq> 0 then 1 else 0\<rparr>"
  let ?e = "?d\<lparr>free := ts, running := [(tag, q, i), (t, ?q, Suc e)], delays := ds\<rparr>"
  have free: "spin (R8 (bdev_ops un) BLKDEV_NALLOC) (\<lambda>v. v \<noteq> 0) d = Some (of_nat (length (free d)), ?w)"
    using f assms(1,4) n by (simp add: spin.simps [of _ _ d] of_nat_u8_eq_0 del: of_nat_Suc)
  have launch: "snd (R8 (bdev_ops un) BLKDEV_ALLOC ?d) = ?e"
    using f assms(6) by (simp add: bdev_allocate_def xfer_request_def)
  have wait: "spin (R8 (bdev_ops un) BLKDEV_NCOMPLETE) (\<lambda>v. v \<noteq> 0) ?e =
      Some (1, (dma un q ?e)\<lparr>running := [(t, ?q, Suc e)], finished := [tag]\<rparr>)"
    by (rule wait_for_completion) (simp_all add: assms(2))
  let ?z = "(dma un q ?e)\<lparr>running := [(t, ?q, e)], finished := [], free := ts @ [tag]\<rparr>"
  have "blkdev_xfer (bdev_ops un) bsize pa offset write d = Some ?z"
    unfolding blkdev_xfer_def Let_def free option.case prod.case bdev_ops_simps(7-11) launch wait
    by (simp add: bdev_complete_def)
  then show ?thesis
    using f by (intro exI [of _ ?z]) (simp add: dma_def)
qed

lemma differ_first: "mem a \<noteq> file 0 \<Longrightarrow> 0 < n \<Longrightarrow> ram_bytes n mem a \<noteq> file_block n file 0"
  by (auto simp: ram_bytes_def file_block_def upt_conv_Cons)

text \<open>
  C30: \<open>blkdev_init\<close> discards the completions that are waiting, not a request of a previous run that is
  still under way. Whatever was waiting, when one request outlives the draining loop and the launch of the
  first read, and the device then needs longer than one register read for the read's own
  request, \<open>blkdev_rw(b, 0)\<close> returns as if it had succeeded on the completion of the old request: the old DMA
  has happened to memory and store, the read's own has not and its request is left running.
\<close>

theorem init_misses_request_under_way:
  assumes "running (device k) = [(tag, q, n)]" "2 * length (finished (device k)) + 3 \<le> n"
    and "free (device k) @ finished (device k) \<noteq> []"
    and "length (free (device k)) + length (finished (device k)) < 256" "delays (device k) = Suc e # ds"
    and "block_in_range bsize (nsectors (device k)) (blockno b)" "block_size bsize"
  shows "\<exists>k1 k2 c. blkdev_init (bdev_ops un) k = Some k1
    \<and> blkdev_rw (bdev_ops un) bsize b 0 k1 = Some (Inr (b\<lparr>disk := 0\<rparr>, k2))
    \<and> running (device k2) = [(hd (free (device k) @ finished (device k)),
        xfer_request bsize (data b) (blockno b * SECTORS_PER_BLOCK bsize) 0, e)]
    \<and> finished (device k2) = [] \<and> misused (device k2) = misused (device k)
    \<and> ram (device k2) = dma_ram un q (store (device k)) (ram (device k))
    \<and> store (device k2) = dma_store q (ram (device k)) (store (device k))
    \<and> kcalls k2 = kcalls k @ c
         @ (if finished (device k) = [] then [] else [PrintkStale (int (length (finished (device k))))])
         @ [Acquire, Release]"
proof -
  let ?m = "length (finished (device k))"
  let ?d = "(device k)\<lparr>running := [(tag, q, n - Suc (2 * ?m))], finished := [], free := free (device k) @ finished (device k)\<rparr>"
  have drain: "blkdev_drain (bdev_ops un) 0 (device k) = Some (int ?m, ?d)"
    using drain_running [OF assms(1), of un 0] assms(2,4) by simp
  define c where "c = [Initlock, PrintkSectors (nsectors (device k)) (nsectors (device k) div 2048) (max_len (device k))]
    @ (if nsectors (device k) = 0 then [PrintkNoStore] else [])"
  have "\<exists>k1. blkdev_init (bdev_ops un) k = Some k1 \<and> device k1 = ?d \<and> blkdev_nsectors k1 = nsectors (device k)
    \<and> kcalls k1 = kcalls k @ c @ (if finished (device k) = [] then [] else [PrintkStale (int ?m)])"
    using drain by (simp add: blkdev_init_def Let_def kcall_def SECTOR_SIZE_def c_def)
  then obtain k1 where k1: "blkdev_init (bdev_ops un) k = Some k1" "device k1 = ?d"
    "blkdev_nsectors k1 = nsectors (device k)"
    "kcalls k1 = kcalls k @ c @ (if finished (device k) = [] then [] else [PrintkStale (int ?m)])"
    by blast
  have d: "running ?d = [(tag, q, n - Suc (2 * ?m))]" "finished ?d = []" "free ?d \<noteq> []" "length (free ?d) < 256"
      "2 \<le> n - Suc (2 * ?m)" "delays ?d = Suc e # ds"
    using assms(2-5) by auto
  from xfer_behind_request [OF d, of un bsize "data b" "blockno b * SECTORS_PER_BLOCK bsize" 0]
  obtain d' where d': "blkdev_xfer (bdev_ops un) bsize (data b) (blockno b * SECTORS_PER_BLOCK bsize) 0 (device k1) = Some d'"
      "running d' = [(hd (free (device k) @ finished (device k)),
        xfer_request bsize (data b) (blockno b * SECTORS_PER_BLOCK bsize) 0, e)]" "finished d' = []"
      "misused d' = misused (device k)" "ram d' = dma_ram un q (store (device k)) (ram (device k))"
      "store d' = dma_store q (ram (device k)) (store (device k))"
    unfolding k1(2) by auto
  have "blkdev_rw (bdev_ops un) bsize b 0 k1 =
      Some (Inr (b\<lparr>disk := 0\<rparr>, kcall Release ((kcall Acquire k1)\<lparr>device := d'\<rparr>)))"
    using in_range_passes [OF assms(6,7)] d'(1) k1(3) by (simp add: blkdev_rw_def Let_def kcall_def)
  with k1(1,4) d'(2-6) show ?thesis by (auto simp: kcall_def)
qed

text \<open>
  A write of the previous run is still under way, one completion of it is waiting: the read of block 0
  reports success over a buffer that still holds its zeros.
\<close>

definition interrupted_device :: bdev where
  "interrupted_device = \<lparr>reg_addr = 0, reg_offset = 0, reg_len = 0, reg_write = 0,
     free = [1], running = [(0, \<lparr>rq_addr = 0x80100000, rq_offset = 8, rq_len = 2, rq_write = True\<rparr>, 6)],
     finished = [2], delays = [9], nsectors = 4000, max_len = 16, ram = (\<lambda>_. 0), store = (\<lambda>_. 7),
     misused = False\<rparr>"

theorem init_misses_request_under_way_witness:
  "\<exists>k1 k2. blkdev_init (bdev_ops (\<lambda>_ _. id)) \<lparr>device = interrupted_device, blkdev_nsectors = 0, kcalls = []\<rparr> = Some k1
    \<and> blkdev_rw (bdev_ops (\<lambda>_ _. id)) 1024 \<lparr>valid = 0, disk = 1, blockno = 0, data = 0x80200000\<rparr> 0 k1
        = Some (Inr (\<lparr>valid = 0, disk = 0, blockno = 0, data = 0x80200000\<rparr>, k2))
    \<and> running (device k2) \<noteq> []
    \<and> ram_bytes 1024 (ram (device k2)) 0x80200000 \<noteq> file_block 1024 (store (device k2)) 0"
proof -
  let ?k = "\<lparr>device = interrupted_device, blkdev_nsectors = 0, kcalls = []\<rparr>"
  let ?b = "\<lparr>valid = 0, disk = 1, blockno = 0, data = 0x80200000\<rparr>"
  let ?q = "\<lparr>rq_addr = 0x80100000, rq_offset = 8, rq_len = 2, rq_write = True\<rparr>"
  have "running (device ?k) = [(0, ?q, 6)]" "2 * length (finished (device ?k)) + 3 \<le> 6"
    "free (device ?k) @ finished (device ?k) \<noteq> []" "length (free (device ?k)) + length (finished (device ?k)) < 256"
    "delays (device ?k) = Suc 8 # []" "block_in_range 1024 (nsectors (device ?k)) (blockno ?b)" "block_size 1024"
    by (simp_all add: interrupted_device_def block_in_range_def block_size_def)
  from init_misses_request_under_way [OF this, of "\<lambda>_ _. id"] obtain k1 k2 where
    "blkdev_init (bdev_ops (\<lambda>_ _. id)) ?k = Some k1"
    "blkdev_rw (bdev_ops (\<lambda>_ _. id)) 1024 ?b 0 k1 = Some (Inr (?b\<lparr>disk := 0\<rparr>, k2))" "running (device k2) \<noteq> []"
    "ram (device k2) = (\<lambda>_. 0)" "store (device k2) = dma_store ?q (\<lambda>_. 0) (\<lambda>_. 7)"
    by (auto simp: interrupted_device_def dma_ram_def)
  moreover from this have "ram_bytes 1024 (ram (device k2)) 0x80200000 \<noteq> file_block 1024 (store (device k2)) 0"
    by (intro differ_first) (simp_all add: dma_store_def)
  ultimately show ?thesis by auto
qed

section \<open>Order of the register accesses\<close>

datatype access = AR8 u64 | AR32 u64 | AW8 u64 u8 | AW32 u64 u32 | AW64 u64 u64 | ASync

definition logged :: "'d mmio \<Rightarrow> ('d \<times> access list) mmio" where
  "logged m = \<lparr>
     R8 = (\<lambda>a (d, l). case R8 m a d of (v, d') \<Rightarrow> (v, (d', l @ [AR8 a]))),
     R32 = (\<lambda>a (d, l). case R32 m a d of (v, d') \<Rightarrow> (v, (d', l @ [AR32 a]))),
     W8 = (\<lambda>a v (d, l). (W8 m a v d, l @ [AW8 a v])),
     W32 = (\<lambda>a v (d, l). (W32 m a v d, l @ [AW32 a v])),
     W64 = (\<lambda>a v (d, l). (W64 m a v d, l @ [AW64 a v])),
     sync = (\<lambda>(d, l). (sync m d, l @ [ASync]))\<rparr>"

lemma logged_simps [simp]:
  "R8 (logged m) a (d, l) = (fst (R8 m a d), (snd (R8 m a d), l @ [AR8 a]))"
  "W8 (logged m) a x (d, l) = (W8 m a x d, l @ [AW8 a x])"
  "W32 (logged m) a y (d, l) = (W32 m a y d, l @ [AW32 a y])"
  "W64 (logged m) a z (d, l) = (W64 m a z d, l @ [AW64 a z])"
  "sync (logged m) (d, l) = (sync m d, l @ [ASync])"
  by (simp_all add: logged_def split: prod.split)

lemma spin_R8_logged:
  assumes "spin (R8 m a) ready d = Some (v, d')"
  shows "\<exists>j. spin (R8 (logged m) a) ready (d, l) = Some (v, (d', l @ replicate (Suc j) (AR8 a)))"
  using spin_logged [OF assms, of "AR8 a" l] by (simp add: logged_def)

text \<open>Whatever the device does, a transfer that returns has made exactly these accesses.\<close>

lemma blkdev_xfer_logged:
  assumes "blkdev_xfer m bsize pa offset write d = Some d'"
  shows "\<exists>i j. blkdev_xfer (logged m) bsize pa offset write (d, l) = Some (d',
      l @ replicate (Suc i) (AR8 BLKDEV_NALLOC)
        @ [AW64 BLKDEV_ADDR pa, AW32 BLKDEV_OFFSET offset, AW32 BLKDEV_LEN (SECTORS_PER_BLOCK bsize),
           AW8 BLKDEV_WRITE (if write \<noteq> 0 then 1 else 0), ASync, AR8 BLKDEV_ALLOC]
        @ replicate (Suc j) (AR8 BLKDEV_NCOMPLETE) @ [AR8 BLKDEV_COMPLETE, ASync])"
proof -
  obtain v d1 where one: "spin (R8 m BLKDEV_NALLOC) (\<lambda>v. v \<noteq> 0) d = Some (v, d1)"
    using assms by (fastforce simp: blkdev_xfer_def split: option.splits)
  let ?d2 = "snd (R8 m BLKDEV_ALLOC (sync m (W8 m BLKDEV_WRITE (if write \<noteq> 0 then 1 else 0)
    (W32 m BLKDEV_LEN (SECTORS_PER_BLOCK bsize) (W32 m BLKDEV_OFFSET offset (W64 m BLKDEV_ADDR pa d1))))))"
  obtain u d3 where two: "spin (R8 m BLKDEV_NCOMPLETE) (\<lambda>v. v \<noteq> 0) ?d2 = Some (u, d3)"
    and d': "d' = sync m (snd (R8 m BLKDEV_COMPLETE d3))"
    using assms one by (auto simp: blkdev_xfer_def Let_def split: option.splits)
  obtain i where i: "spin (R8 (logged m) BLKDEV_NALLOC) (\<lambda>v. v \<noteq> 0) (d, l) =
      Some (v, (d1, l @ replicate (Suc i) (AR8 BLKDEV_NALLOC)))"
    using spin_R8_logged [OF one] by blast
  let ?k = "l @ replicate (Suc i) (AR8 BLKDEV_NALLOC)
        @ [AW64 BLKDEV_ADDR pa, AW32 BLKDEV_OFFSET offset, AW32 BLKDEV_LEN (SECTORS_PER_BLOCK bsize),
           AW8 BLKDEV_WRITE (if write \<noteq> 0 then 1 else 0), ASync, AR8 BLKDEV_ALLOC]"
  obtain j where j: "spin (R8 (logged m) BLKDEV_NCOMPLETE) (\<lambda>v. v \<noteq> 0) (?d2, ?k) =
      Some (u, (d3, ?k @ replicate (Suc j) (AR8 BLKDEV_NCOMPLETE)))"
    using spin_R8_logged [OF two] by blast
  show ?thesis
    using j by (intro exI [of _ i] exI [of _ j]) (simp add: blkdev_xfer_def Let_def i d' del: replicate_Suc)
qed

text \<open>
  C21: The register protocol of a transfer: free trackers are polled first, the four request
  registers are written in the order address, offset, length, direction, then the barrier, then
  exactly one read of \<open>allocate\<close> (one launch), then \<open>ncomplete\<close> is polled and one completion popped.
\<close>

theorem blkdev_xfer_order:
  assumes "bdev_idle d"
  shows "\<exists>i j d'. bdev_idle d' \<and> blkdev_xfer (logged (bdev_ops un)) bsize pa offset write (d, []) = Some (d',
      replicate (Suc i) (AR8 BLKDEV_NALLOC)
        @ [AW64 BLKDEV_ADDR pa, AW32 BLKDEV_OFFSET offset, AW32 BLKDEV_LEN (SECTORS_PER_BLOCK bsize),
           AW8 BLKDEV_WRITE (if write \<noteq> 0 then 1 else 0), ASync, AR8 BLKDEV_ALLOC]
        @ replicate (Suc j) (AR8 BLKDEV_NCOMPLETE) @ [AR8 BLKDEV_COMPLETE, ASync])"
proof -
  obtain d' where "blkdev_xfer (bdev_ops un) bsize pa offset write d = Some d'" "bdev_idle d'"
    using blkdev_xfer_idle [OF assms] by blast
  then show ?thesis
    using blkdev_xfer_logged [of "bdev_ops un" bsize pa offset "write" d d' "[]"]
    unfolding append_Nil by blast
qed

section \<open>Buffers\<close>

text \<open>
  \<open>struct buf\<close> with \<open>data\<close> aligned to 64 bytes: the header of \<open>hdr\<close> bytes is padded up to a multiple of
  64, and so is the size of the structure. \<open>packed_data\<close> is the same without the attribute.
\<close>

definition round_up :: "nat \<Rightarrow> nat" where
  "round_up n = (n + 63) div 64 * 64"

definition buf_data :: "u64 \<Rightarrow> nat \<Rightarrow> nat \<Rightarrow> nat \<Rightarrow> u64" where
  "buf_data bufs hdr bsize i = bufs + of_nat (i * round_up (round_up hdr + bsize) + round_up hdr)"

definition packed_data :: "u64 \<Rightarrow> nat \<Rightarrow> nat \<Rightarrow> nat \<Rightarrow> u64" where
  "packed_data bufs hdr bsize i = bufs + of_nat (i * (hdr + bsize) + hdr)"

lemma mod_64_add_of_nat:
  assumes "a mod 64 = (0 :: u64)"
  shows "(a + of_nat n) mod 64 = 0 \<longleftrightarrow> n mod 64 = 0"
proof -
  have a: "unat a mod 64 = 0" using assms by (simp add: word_unat_eq_iff unat_mod)
  have d: "(64 :: nat) dvd 2 ^ 64" by (simp add: dvd_power_le)
  have "unat (a + of_nat n) mod 64 = (unat a + n mod 2 ^ 64) mod 2 ^ 64 mod 64"
    by (simp add: unat_word_ariths unat_of_nat)
  also have "\<dots> = (unat a + n mod 2 ^ 64) mod 64" by (rule mod_mod_cancel [OF d])
  also have "\<dots> = (unat a mod 64 + n mod 2 ^ 64 mod 64) mod 64" by (rule mod_add_eq [symmetric])
  also have "\<dots> = n mod 64" unfolding mod_mod_cancel [OF d] a by simp
  finally show ?thesis by (simp add: word_unat_eq_iff unat_mod)
qed

lemma round_up_dvd: "64 dvd round_up n"
  by (simp add: round_up_def)

lemma packed_phase: "(i * (88 + 1024) + 88) mod 64 = 0 \<longleftrightarrow> i mod 8 = (7 :: nat)"
proof -
  define q r where "q = i div 8" and "r = i mod 8"
  have "i = q * 8 + r" by (simp add: q_def r_def)
  then have "i * (88 + 1024) + 88 = r * 1112 + 88 + 64 * (139 * q)" by simp
  then have "(i * (88 + 1024) + 88) mod 64 = (r * 1112 + 88) mod 64"
    by (simp only: mod_mult_self2)
  moreover have "r < 8" by (simp add: r_def)
  then have "r = 0 \<or> r = 1 \<or> r = 2 \<or> r = 3 \<or> r = 4 \<or> r = 5 \<or> r = 6 \<or> r = 7" by linarith
  then have "(r * 1112 + 88) mod 64 = 0 \<longleftrightarrow> r = 7" by (elim disjE) simp_all
  ultimately show ?thesis by (simp add: r_def)
qed

text \<open>
  With the aligned \<open>data\<close> field every buffer of the cache is a legal DMA target; without
  the attribute (88-byte header, 1024-byte blocks) only every eighth buffer is.
\<close>

theorem buffers_aligned:
  assumes "bufs mod 64 = 0"
  shows "buf_data bufs hdr bsize i mod 64 = 0
    \<and> (packed_data bufs 88 1024 i mod 64 = 0 \<longleftrightarrow> i mod 8 = 7)"
proof
  have "64 dvd i * round_up (round_up hdr + bsize) + round_up hdr"
    by (intro dvd_add dvd_mult round_up_dvd)
  then show "buf_data bufs hdr bsize i mod 64 = 0"
    unfolding buf_data_def mod_64_add_of_nat [OF assms] by (rule dvd_imp_mod_0)
  show "packed_data bufs 88 1024 i mod 64 = 0 \<longleftrightarrow> i mod 8 = 7"
    unfolding packed_data_def mod_64_add_of_nat [OF assms] by (rule packed_phase)
qed

section \<open>bread and bwrite\<close>

text \<open>
  The two calls of \<open>kernel/bio.c\<close> that the port redirects to this driver, over the driver's call.
  \<open>bget\<close> (which may panic) and \<open>holdingsleep\<close> are parameters.
\<close>

definition bread :: "(buf \<Rightarrow> int \<Rightarrow> 'k \<Rightarrow> (string + buf \<times> 'k) option) \<Rightarrow>
    (u32 \<Rightarrow> u32 \<Rightarrow> 'k \<Rightarrow> string + buf \<times> 'k) \<Rightarrow> u32 \<Rightarrow> u32 \<Rightarrow> 'k \<Rightarrow> (string + buf \<times> 'k) option" where
  "bread rw bget dev n k =
     (case bget dev n k of
        Inl e \<Rightarrow> Some (Inl e)
      | Inr (b, k) \<Rightarrow>
          if valid b = 0 then
            (case rw b 0 k of
               None \<Rightarrow> None
             | Some (Inl e) \<Rightarrow> Some (Inl e)
             | Some (Inr (b, k)) \<Rightarrow> Some (Inr (b\<lparr>valid := 1\<rparr>, k)))
          else Some (Inr (b, k)))"

definition bwrite :: "(buf \<Rightarrow> int \<Rightarrow> 'k \<Rightarrow> (string + buf \<times> 'k) option) \<Rightarrow>
    (buf \<Rightarrow> 'k \<Rightarrow> bool) \<Rightarrow> buf \<Rightarrow> 'k \<Rightarrow> (string + buf \<times> 'k) option" where
  "bwrite rw holdingsleep b k =
     (if \<not> holdingsleep b k then Some (Inl ''bwrite'') else rw b 1 k)"

text \<open>What the buffer cache relies on of a disk driver, and what follows for it.\<close>

locale disk_driver =
  fixes rw :: "buf \<Rightarrow> int \<Rightarrow> 'k \<Rightarrow> (string + buf \<times> 'k) option"
    and able :: "'k \<Rightarrow> buf \<Rightarrow> bool"
    and blocks :: "'k \<Rightarrow> u32 \<Rightarrow> u8 list"
    and bytes :: "'k \<Rightarrow> u64 \<Rightarrow> u8 list"
  assumes rw_read: "able k b \<Longrightarrow> \<exists>k'. rw b 0 k = Some (Inr (b\<lparr>disk := 0\<rparr>, k'))
      \<and> able k' = able k \<and> bytes k' (data b) = blocks k (blockno b) \<and> blocks k' = blocks k"
    and rw_write: "able k b \<Longrightarrow> \<exists>k'. rw b 1 k = Some (Inr (b\<lparr>disk := 0\<rparr>, k'))
      \<and> able k' = able k \<and> bytes k' = bytes k
      \<and> blocks k' = (blocks k)(blockno b := bytes k (data b))"
begin

lemma bread_fresh:
  assumes "bget dev n k = Inr (c, k1)" "valid c = 0" "blockno c = n" "able k1 c"
  shows "\<exists>k2. bread rw bget dev n k = Some (Inr (c\<lparr>valid := 1, disk := 0\<rparr>, k2))
    \<and> able k2 = able k1 \<and> bytes k2 (data c) = blocks k1 n \<and> blocks k2 = blocks k1"
  using rw_read [OF assms(4)] assms by (auto simp: bread_def)

lemma bread_cached:
  assumes "bget dev n k = Inr (c, k1)" "valid c \<noteq> 0"
  shows "bread rw bget dev n k = Some (Inr (c, k1))"
  using assms by (simp add: bread_def)

lemma write_then_read:
  assumes "able k b" "holdingsleep b k" "able k c" "valid c = 0" "blockno c = n"
    and "\<And>k. bget dev n k = Inr (c, k)"
  shows "\<exists>k1 k2. bwrite rw holdingsleep b k = Some (Inr (b\<lparr>disk := 0\<rparr>, k1))
    \<and> bread rw bget dev n k1 = Some (Inr (c\<lparr>valid := 1, disk := 0\<rparr>, k2))
    \<and> bytes k2 (data c) = (if n = blockno b then bytes k (data b) else blocks k n)"
proof -
  obtain k1 where k1: "rw b 1 k = Some (Inr (b\<lparr>disk := 0\<rparr>, k1))" "able k1 = able k"
      "blocks k1 = (blocks k)(blockno b := bytes k (data b))"
    using rw_write [OF assms(1)] by blast
  with bread_fresh [of bget dev n k1 c k1, OF assms(6,4,5)] assms(2,3) show ?thesis
    by (auto simp: bwrite_def)
qed

end

definition rw_able :: "nat \<Rightarrow> bdev kernel \<Rightarrow> buf \<Rightarrow> bool" where
  "rw_able bsize k b \<longleftrightarrow> bdev_idle (device k) \<and> block_size bsize \<and> data b mod 64 = 0
     \<and> block_in_range bsize (blkdev_nsectors k) (blockno b)"

interpretation blkdev: disk_driver "blkdev_rw (bdev_ops un) bsize" "rw_able bsize"
    "\<lambda>k n. file_block bsize (store (device k)) (unat n)" "\<lambda>k. ram_bytes bsize (ram (device k))"
  for un bsize
proof
  fix k b
  assume able: "rw_able bsize k b"
  then have b: "bdev_idle (device k)" "block_in_range bsize (blkdev_nsectors k) (blockno b)"
      "block_size bsize" "data b mod 64 = 0"
    by (simp_all add: rw_able_def)
  show "\<exists>k'. blkdev_rw (bdev_ops un) bsize b 0 k = Some (Inr (b\<lparr>disk := 0\<rparr>, k'))
      \<and> rw_able bsize k' = rw_able bsize k
      \<and> ram_bytes bsize (ram (device k')) (data b) = file_block bsize (store (device k)) (unat (blockno b))
      \<and> (\<lambda>n. file_block bsize (store (device k')) (unat n)) = (\<lambda>n. file_block bsize (store (device k)) (unat n))"
  proof -
    obtain k' where "blkdev_rw (bdev_ops un) bsize b 0 k = Some (Inr (b\<lparr>disk := 0\<rparr>, k'))"
      "bdev_idle (device k')" "blkdev_nsectors k' = blkdev_nsectors k" "store (device k') = store (device k)"
      "ram_bytes bsize (ram (device k')) (data b) = file_block bsize (store (device k)) (unat (blockno b))"
      using rw_reads_block [OF b, of un] by blast
    moreover from this b(1) have "rw_able bsize k' = rw_able bsize k"
      by (simp add: rw_able_def fun_eq_iff)
    ultimately show ?thesis by (intro exI [of _ k']) simp
  qed
  show "\<exists>k'. blkdev_rw (bdev_ops un) bsize b 1 k = Some (Inr (b\<lparr>disk := 0\<rparr>, k'))
      \<and> rw_able bsize k' = rw_able bsize k
      \<and> ram_bytes bsize (ram (device k')) = ram_bytes bsize (ram (device k))
      \<and> (\<lambda>n. file_block bsize (store (device k')) (unat n)) =
          (\<lambda>n. file_block bsize (store (device k)) (unat n))
            (blockno b := ram_bytes bsize (ram (device k)) (data b))"
  proof -
    obtain k' where "blkdev_rw (bdev_ops un) bsize b 1 k = Some (Inr (b\<lparr>disk := 0\<rparr>, k'))"
      "bdev_idle (device k')" "blkdev_nsectors k' = blkdev_nsectors k" "ram (device k') = ram (device k)"
      "file_block bsize (store (device k')) (unat (blockno b)) = ram_bytes bsize (ram (device k)) (data b)"
      "\<forall>n. n \<noteq> unat (blockno b) \<longrightarrow>
         file_block bsize (store (device k')) n = file_block bsize (store (device k)) n"
      using rw_writes_block [OF b(1-3), of un] by blast
    moreover from this b(1) have "rw_able bsize k' = rw_able bsize k"
      by (simp add: rw_able_def fun_eq_iff)
    moreover from calculation have "(\<lambda>n. file_block bsize (store (device k')) (unat n)) =
        (\<lambda>n. file_block bsize (store (device k)) (unat n))
          (blockno b := ram_bytes bsize (ram (device k)) (data b))"
      by (intro ext) (simp add: word_unat_eq_iff)
    ultimately show ?thesis by (intro exI [of _ k']) simp
  qed
qed

section \<open>The driver as a whole\<close>

text \<open>
  C1: Boot and read. From any device without a request under way, whatever completions a
  previous run left behind, \<open>blkdev_init\<close> returns after discarding and reporting exactly those, and
  a following \<open>blkdev_rw(b, 0)\<close> of a block inside the store returns with the block's bytes in
  \<open>b->data\<close>, no other byte of memory and nothing on the store changed, \<open>b->disk\<close> cleared, the lock
  taken and released once, every tracker free and no register misused, for any latency of the device.
\<close>

theorem read_after_boot:
  assumes "running (device k) = []" "free (device k) @ finished (device k) \<noteq> []" "\<not> misused (device k)"
    and "length (free (device k)) + length (finished (device k)) < 256"
    and "block_in_range bsize (nsectors (device k)) (blockno b)" "block_size bsize" "data b mod 64 = 0"
  shows "\<exists>k1 k2. blkdev_init (bdev_ops un) k = Some k1
    \<and> blkdev_rw (bdev_ops un) bsize b 0 k1 = Some (Inr (b\<lparr>disk := 0\<rparr>, k2))
    \<and> ram_bytes bsize (ram (device k2)) (data b) = file_block bsize (store (device k)) (unat (blockno b))
    \<and> (\<forall>a. bsize \<le> unat (a - data b) \<longrightarrow> ram (device k2) a = ram (device k) a)
    \<and> store (device k2) = store (device k) \<and> bdev_idle (device k2)
    \<and> (\<exists>c. kcalls k2 = kcalls k @ c
         @ (if finished (device k) = [] then [] else [PrintkStale (int (length (finished (device k))))])
         @ [Acquire, Release])"
proof -
  obtain k1 c where k1: "blkdev_init (bdev_ops un) k = Some k1" "bdev_idle (device k1)"
    "blkdev_nsectors k1 = nsectors (device k)" "ram (device k1) = ram (device k)"
    "store (device k1) = store (device k)"
    "kcalls k1 = kcalls k @ c
         @ (if finished (device k) = [] then [] else [PrintkStale (int (length (finished (device k))))])"
    using init_drains [OF assms(1-4), of un] by (metis append.assoc)
  have "block_in_range bsize (blkdev_nsectors k1) (blockno b)" using assms(5) k1(3) by simp
  from rw_reads_block [OF k1(2) this assms(6,7), of un] obtain k2 where
    "blkdev_rw (bdev_ops un) bsize b 0 k1 = Some (Inr (b\<lparr>disk := 0\<rparr>, k2))"
    "bdev_idle (device k2)" "kcalls k2 = kcalls k1 @ [Acquire, Release]"
    "ram_bytes bsize (ram (device k2)) (data b) = file_block bsize (store (device k1)) (unat (blockno b))"
    "\<forall>a. bsize \<le> unat (a - data b) \<longrightarrow> ram (device k2) a = ram (device k1) a"
    "store (device k2) = store (device k1)"
    by blast
  with k1 show ?thesis by auto
qed

text \<open>
  \<open>blkdev_rw(b, 1)\<close> of a block inside the store terminates and stores exactly the
  buffer's bytes at that block: every other block and all of memory keep their contents.
\<close>

theorem blkdev_write_block:
  assumes "bdev_idle (device k)" "block_in_range bsize (blkdev_nsectors k) (blockno b)" "block_size bsize"
  shows "\<exists>k'. blkdev_rw (bdev_ops un) bsize b 1 k = Some (Inr (b\<lparr>disk := 0\<rparr>, k'))
    \<and> bdev_idle (device k') \<and> kcalls k' = kcalls k @ [Acquire, Release]
    \<and> file_block bsize (store (device k')) (unat (blockno b)) = ram_bytes bsize (ram (device k)) (data b)
    \<and> (\<forall>n. n \<noteq> unat (blockno b) \<longrightarrow>
         file_block bsize (store (device k')) n = file_block bsize (store (device k)) n)
    \<and> ram (device k') = ram (device k)"
  using rw_writes_block [OF assms, of un] by blast

text \<open>
  \<open>bwrite\<close> followed by \<open>bread\<close> through an empty buffer yields the bytes written when the
  block is the same, and the old contents of the block read otherwise; the buffer comes back valid.
\<close>

theorem blkdev_write_then_read:
  assumes "rw_able bsize k b" "rw_able bsize k c" "holdingsleep b k" "valid c = 0" "blockno c = n"
    and "\<And>k. bget dev n k = Inr (c, k)"
  shows "\<exists>k1 k2. bwrite (blkdev_rw (bdev_ops un) bsize) holdingsleep b k = Some (Inr (b\<lparr>disk := 0\<rparr>, k1))
    \<and> bread (blkdev_rw (bdev_ops un) bsize) bget dev n k1 = Some (Inr (c\<lparr>valid := 1, disk := 0\<rparr>, k2))
    \<and> ram_bytes bsize (ram (device k2)) (data c) =
        (if n = blockno b then ram_bytes bsize (ram (device k)) (data b)
         else file_block bsize (store (device k)) (unat n))"
  by (rule blkdev.write_then_read [where holdingsleep = holdingsleep and b = b and bget = bget])
     (rule assms)+

section \<open>Witnesses\<close>

text \<open>A store of 4000 sectors, one stale completion, latencies of five and two register reads.\<close>

definition sample_device :: bdev where
  "sample_device = \<lparr>reg_addr = 0, reg_offset = 0, reg_len = 0, reg_write = 0,
     free = [0], running = [], finished = [1], delays = [5, 2], nsectors = 4000, max_len = 16,
     ram = (\<lambda>_. 0), store = of_nat, misused = False\<rparr>"

definition sample_kernel :: "bdev kernel" where
  "sample_kernel = \<lparr>device = sample_device\<lparr>free := [0, 1], finished := []\<rparr>, blkdev_nsectors = 4000, kcalls = []\<rparr>"

definition sample_buf :: buf where
  "sample_buf = \<lparr>valid = 0, disk = 1, blockno = 3, data = 0x80010040\<rparr>"

lemmas sample_defs = sample_device_def sample_kernel_def sample_buf_def bdev_idle_def block_size_def
  block_in_range_def rw_able_def

lemma sample_address [simp]: "(0x80010040 :: u64) mod 64 = 0" "(0x80010480 :: u64) mod 64 = 0"
  by (simp_all add: word_unat_eq_iff unat_mod)

theorem read_after_boot_witness:
  "\<exists>k1 k2. blkdev_init (bdev_ops (\<lambda>_ _. id)) \<lparr>device = sample_device, blkdev_nsectors = 0, kcalls = []\<rparr> = Some k1
    \<and> blkdev_rw (bdev_ops (\<lambda>_ _. id)) 1024 sample_buf 0 k1 = Some (Inr (sample_buf\<lparr>disk := 0\<rparr>, k2))
    \<and> ram_bytes 1024 (ram (device k2)) 0x80010040 = file_block 1024 of_nat 3"
  using read_after_boot [of "\<lparr>device = sample_device, blkdev_nsectors = 0, kcalls = []\<rparr>" 1024 sample_buf
      "\<lambda>_ _. id"]
  by (auto simp: sample_defs)

theorem blkdev_write_block_witness:
  "\<exists>k'. blkdev_rw (bdev_ops (\<lambda>_ _. id)) 1024 sample_buf 1 sample_kernel = Some (Inr (sample_buf\<lparr>disk := 0\<rparr>, k'))
    \<and> file_block 1024 (store (device k')) 3 = replicate 1024 0"
  using blkdev_write_block [of sample_kernel 1024 sample_buf "\<lambda>_ _. id"]
  by (auto simp: sample_defs ram_bytes_def map_replicate_const)

theorem blkdev_write_then_read_witness:
  "\<exists>k1 k2. bwrite (blkdev_rw (bdev_ops (\<lambda>_ _. id)) 1024) (\<lambda>_ _. True) sample_buf sample_kernel
      = Some (Inr (sample_buf\<lparr>disk := 0\<rparr>, k1))
    \<and> bread (blkdev_rw (bdev_ops (\<lambda>_ _. id)) 1024) (\<lambda>_ n k. Inr (sample_buf\<lparr>data := 0x80010480\<rparr>, k)) 1 3 k1
      = Some (Inr (sample_buf\<lparr>data := 0x80010480, valid := 1, disk := 0\<rparr>, k2))
    \<and> ram_bytes 1024 (ram (device k2)) 0x80010480 = ram_bytes 1024 (\<lambda>_. 0) 0x80010040"
  using blkdev_write_then_read [of 1024 sample_kernel sample_buf "sample_buf\<lparr>data := 0x80010480\<rparr>"
      "\<lambda>_ _. True" 3 "\<lambda>_ n k. Inr (sample_buf\<lparr>data := 0x80010480\<rparr>, k)" 1 "\<lambda>_ _. id"]
  by (simp add: sample_defs)

theorem blkdev_xfer_order_witness:
  "\<exists>i j d'. bdev_idle d' \<and> blkdev_xfer (logged (bdev_ops (\<lambda>_ _. id))) 1024 0x80010040 6 0
      (device sample_kernel, []) = Some (d',
      replicate (Suc i) (AR8 BLKDEV_NALLOC)
        @ [AW64 BLKDEV_ADDR 0x80010040, AW32 BLKDEV_OFFSET 6, AW32 BLKDEV_LEN (SECTORS_PER_BLOCK 1024),
           AW8 BLKDEV_WRITE 0, ASync, AR8 BLKDEV_ALLOC]
        @ replicate (Suc j) (AR8 BLKDEV_NCOMPLETE) @ [AR8 BLKDEV_COMPLETE, ASync])"
  using blkdev_xfer_order [of "device sample_kernel" "\<lambda>_ _. id" 1024 "0x80010040" 6 0]
  by (simp add: sample_defs)

theorem range_check_exact_witness:
  "blkdev_rw (bdev_ops (\<lambda>_ _. id)) 1024 (sample_buf\<lparr>blockno := 2000\<rparr>) 0 sample_kernel
     = Some (Inl ''blkdev_rw: out of range'')"
  using range_check_exact [of sample_kernel 1024 "sample_buf\<lparr>blockno := 2000\<rparr>" "\<lambda>_ _. id" 0]
  by (simp add: sample_defs)

theorem range_check_wraps_witness:
  "\<exists>k'. blkdev_rw (bdev_ops (\<lambda>_ _. id)) 1024 (sample_buf\<lparr>blockno := 0x80000000\<rparr>) 1 sample_kernel
       = Some (Inr (sample_buf\<lparr>blockno := 0x80000000, disk := 0\<rparr>, k'))
     \<and> file_block 1024 (store (device k')) 0 = ram_bytes 1024 (\<lambda>_. 0) 0x80010040"
  using range_check_wraps [of sample_kernel "sample_buf\<lparr>blockno := 0x80000000\<rparr>" "\<lambda>_ _. id"]
  by (auto simp: sample_defs)

theorem range_check_limits_witness:
  "blkdev_rw (bdev_ops (\<lambda>_ _. id)) 1024 (sample_buf\<lparr>blockno := 2000\<rparr>) 0 sample_kernel
     = Some (Inl ''blkdev_rw: out of range'')"
  using range_check_limits [of sample_kernel 1024 "sample_buf\<lparr>blockno := 2000\<rparr>" "\<lambda>_ _. id" 0]
  by (simp add: sample_defs)

theorem buffers_aligned_witness:
  "buf_data 0x80010040 88 1024 5 mod 64 = 0 \<and> packed_data 0x80010040 88 1024 5 mod 64 \<noteq> 0"
  using buffers_aligned [of "0x80010040" 88 1024 5] by simp

end
