(* ===== verification/Htif.thy ===== *)
theory Htif
  imports Prelude
begin

text \<open>
  The console driver \<open>xv6/htif.c\<close>: commands to the host through \<open>tohost\<close>, replies through
  \<open>fromhost\<close>, polled input. The other side follows the protocol of the comment at the head of the
  file (\<open>host_turn\<close>); it runs between any two of the driver's loads, at a pace given by an arbitrary
  finite schedule after which it keeps polling. \<open>HtifNested\<close> has the same code in single steps, with
  calls from interrupt handlers and from other harts interleaved.
\<close>

section \<open>The state\<close>

datatype host_act = Poll | Pause | Key u8

text \<open>
  \<open>tohost\<close>, \<open>fromhost\<close> and \<open>read_pending\<close> are the driver's variables and \<open>lock_calls\<close> its calls on
  \<open>htif_tx_lock\<close>. On the host's side: the characters written to the console, the keys typed and
  not yet sent, the number of read commands not yet answered, the commands it does not know,
  and what it will do before the next loads.
\<close>

datatype lock_call = InitTx | AcquireTx | ReleaseTx

record htif =
  tohost :: u64
  fromhost :: u64
  read_pending :: int
  lock_calls :: "lock_call list"
  out :: "u8 list"
  keys :: "u8 list"
  reads :: nat
  unknown :: "u64 list"
  sched :: "host_act list"

definition HTIF_DEV_BCD :: u64 where "HTIF_DEV_BCD = 1"
definition HTIF_CMD_READ :: u64 where "HTIF_CMD_READ = 0"
definition HTIF_CMD_WRITE :: u64 where "HTIF_CMD_WRITE = 1"

section \<open>The host\<close>

definition cmd_dev :: "u64 \<Rightarrow> u64" where "cmd_dev w = drop_bit 56 w"
definition cmd_cmd :: "u64 \<Rightarrow> u64" where "cmd_cmd w = drop_bit 48 w AND 0xff"
definition cmd_payload :: "u64 \<Rightarrow> u64" where "cmd_payload w = w AND 0xffffffffffff"

definition is_write :: "u64 \<Rightarrow> bool" where
  "is_write w \<longleftrightarrow> cmd_dev w = 1 \<and> cmd_cmd w = 1"

definition is_read :: "u64 \<Rightarrow> bool" where
  "is_read w \<longleftrightarrow> cmd_dev w = 1 \<and> cmd_cmd w = 0"

text \<open>The host consumes a command and signals it by writing 0 back to \<open>tohost\<close>.\<close>

definition host_consume :: "htif \<Rightarrow> htif" where
  "host_consume h =
     (if tohost h = 0 then h
      else if is_write (tohost h)
      then h\<lparr>out := out h @ [ucast (cmd_payload (tohost h))], tohost := 0\<rparr>
      else if is_read (tohost h) then h\<lparr>reads := reads h + 1, tohost := 0\<rparr>
      else h\<lparr>unknown := unknown h @ [tohost h], tohost := 0\<rparr>)"

text \<open>A reply to a read, written only when \<open>fromhost\<close> reads as 0.\<close>

definition host_reply :: "htif \<Rightarrow> htif" where
  "host_reply h =
     (if fromhost h = 0 \<and> reads h \<noteq> 0 \<and> keys h \<noteq> []
      then h\<lparr>fromhost := 0x100 OR ucast (hd (keys h)), keys := tl (keys h), reads := reads h - 1\<rparr>
      else h)"

fun host_do :: "host_act \<Rightarrow> htif \<Rightarrow> htif" where
  "host_do Poll h = host_reply (host_consume h)"
| "host_do Pause h = h"
| "host_do (Key c) h = h\<lparr>keys := keys h @ [c]\<rparr>"

definition host_turn :: "htif \<Rightarrow> htif" where
  "host_turn h = (case sched h of [] \<Rightarrow> host_do Poll h | a # as \<Rightarrow> host_do a (h\<lparr>sched := as\<rparr>))"

definition load_tohost :: "htif \<Rightarrow> u64 \<times> htif" where
  "load_tohost h = (let h = host_turn h in (tohost h, h))"

definition load_fromhost :: "htif \<Rightarrow> u64 \<times> htif" where
  "load_fromhost h = (let h = host_turn h in (fromhost h, h))"

section \<open>The driver\<close>

text \<open>The command word.\<close>

definition command :: "u64 \<Rightarrow> u64 \<Rightarrow> u64 \<Rightarrow> u64" where
  "command dev cmd payload = push_bit 56 dev OR push_bit 48 cmd OR (payload AND 0xffffffffffff)"

definition htif_send :: "u64 \<Rightarrow> u64 \<Rightarrow> u64 \<Rightarrow> htif \<Rightarrow> htif option" where
  "htif_send dev cmd payload h =
     (case spin load_tohost (\<lambda>v. v = 0) h of
        None \<Rightarrow> None
      | Some (_, h) \<Rightarrow>
          let h = h\<lparr>tohost := command dev cmd payload\<rparr>
          in map_option snd (spin load_tohost (\<lambda>v. v = 0) h))"

definition uartinit :: "htif \<Rightarrow> htif" where
  "uartinit h =
     (let h = h\<lparr>lock_calls := lock_calls h @ [InitTx]\<rparr>
      in h\<lparr>read_pending := 0\<rparr>)"

text \<open>\<open>int c\<close> is a 32-bit value.\<close>

definition uartputc_sync :: "u32 \<Rightarrow> htif \<Rightarrow> htif option" where
  "uartputc_sync c h = htif_send HTIF_DEV_BCD HTIF_CMD_WRITE (ucast (c AND 0xff)) h"

text \<open>The loop of \<open>uartwrite\<close> from index \<open>i\<close>, with \<open>k\<close> iterations left; \<open>buf i\<close> is \<open>buf[i]\<close>.\<close>

fun uartwrite_loop :: "(nat \<Rightarrow> u8) \<Rightarrow> nat \<Rightarrow> nat \<Rightarrow> htif \<Rightarrow> htif option" where
  "uartwrite_loop buf i 0 h = Some h"
| "uartwrite_loop buf i (Suc k) h =
     (case htif_send HTIF_DEV_BCD HTIF_CMD_WRITE (ucast (buf i AND 0xff)) h of
        None \<Rightarrow> None
      | Some h \<Rightarrow> uartwrite_loop buf (i + 1) k h)"

definition uartwrite :: "(nat \<Rightarrow> u8) \<Rightarrow> int \<Rightarrow> htif \<Rightarrow> htif option" where
  "uartwrite buf n h =
     (let h = h\<lparr>lock_calls := lock_calls h @ [AcquireTx]\<rparr>
      in map_option (\<lambda>h. h\<lparr>lock_calls := lock_calls h @ [ReleaseTx]\<rparr>) (uartwrite_loop buf 0 (nat n) h))"

definition htif_getc :: "htif \<Rightarrow> (int \<times> htif) option" where
  "htif_getc h =
     (let (fh, h) = load_fromhost h in
      if fh \<noteq> 0 then
        let h = h\<lparr>fromhost := 0\<rparr>;
            h = h\<lparr>read_pending := 0\<rparr>
        in if fh AND 0x100 \<noteq> 0 then Some (uint (fh AND 0xff), h) else Some (- 1, h)
      else if read_pending h = 0 then
        (case htif_send HTIF_DEV_BCD HTIF_CMD_READ 0 h of
           None \<Rightarrow> None
         | Some h \<Rightarrow> Some (- 1, h\<lparr>read_pending := 1\<rparr>))
      else Some (- 1, h))"

text \<open>
  \<open>consoleintr\<close> (the line discipline, \<open>console.c\<close>) is a parameter. It has a state \<open>'w\<close> of its own, the
  line being edited and whatever else of the kernel it depends on.
\<close>

partial_function (option) uartintr :: "(u32 \<Rightarrow> 'w \<times> htif \<Rightarrow> ('w \<times> htif) option) \<Rightarrow> 'w \<times> htif \<Rightarrow>
    ('w \<times> htif) option" where
  "uartintr consoleintr s =
     (case htif_getc (snd s) of
        None \<Rightarrow> None
      | Some (c, h) \<Rightarrow>
          if c \<noteq> - 1 then
            (case consoleintr (word_of_int c) (fst s, h) of
               None \<Rightarrow> None
             | Some s \<Rightarrow> uartintr consoleintr s)
          else Some (fst s, h))"

section \<open>What the host's turns keep\<close>

text \<open>
  The characters that are on the console or on their way to it, the read commands on their way or
  unanswered, and the input not yet handed to the kernel.
\<close>

definition committed :: "htif \<Rightarrow> u8 list" where
  "committed h = out h @ (if tohost h \<noteq> 0 \<and> is_write (tohost h) then [ucast (cmd_payload (tohost h))] else [])"

definition asked :: "htif \<Rightarrow> nat" where
  "asked h = reads h + (if tohost h \<noteq> 0 \<and> is_read (tohost h) then 1 else 0)
     + (if fromhost h \<noteq> 0 then 1 else 0)"

fun scheduled_keys :: "host_act list \<Rightarrow> u8 list" where
  "scheduled_keys [] = []"
| "scheduled_keys (Key c # as) = c # scheduled_keys as"
| "scheduled_keys (_ # as) = scheduled_keys as"

definition upcoming :: "htif \<Rightarrow> u8 list" where
  "upcoming h = (if fromhost h \<noteq> 0 then [ucast (fromhost h)] else []) @ keys h @ scheduled_keys (sched h)"

lemma bit_256: "bit (0x100 :: u64) k \<longleftrightarrow> k = 8"
proof -
  have "(0x100 :: u64) = push_bit 8 1" by simp
  then show ?thesis by (simp only: bit_push_bit_iff bit_1_iff) auto
qed

lemma bit_255: "bit (0xff :: u64) k \<longleftrightarrow> k < 8"
proof -
  have "(0xff :: u64) = mask 8" by (simp add: mask_eq_exp_minus_1)
  then show ?thesis by (simp only: bit_mask_iff) auto
qed

lemma bit_u8_less: "bit (c :: u8) k \<Longrightarrow> k < 8"
  using bit_imp_le_length [of c k] by simp

lemma reply_word [simp]:
  "(0x100 OR ucast (c :: u8) :: u64) \<noteq> 0"
  "ucast (0x100 OR ucast c :: u64) = c"
  "(0x100 OR ucast c :: u64) AND 0x100 \<noteq> 0"
  "(0x100 OR ucast c :: u64) AND 0xff = ucast c"
proof -
  have "bit (0x100 OR ucast c :: u64) 8" by (simp add: bit_or_iff bit_256)
  then show "(0x100 OR ucast c :: u64) \<noteq> 0" by auto
  show "ucast (0x100 OR ucast c :: u64) = c"
    by (rule bit_word_eqI) (simp only: bit_ucast_iff bit_or_iff bit_256, auto)
  have "bit ((0x100 OR ucast c :: u64) AND 0x100) 8"
    by (simp add: bit_or_iff bit_and_iff bit_256)
  then show "(0x100 OR ucast c :: u64) AND 0x100 \<noteq> 0" by (metis bit_0_eq bot_apply bot_bool_def)
  show "(0x100 OR ucast c :: u64) AND 0xff = ucast c"
    by (rule bit_word_eqI)
       (simp only: bit_ucast_iff bit_or_iff bit_and_iff bit_256 bit_255, auto dest: bit_u8_less)
qed

lemma bit_mask48: "bit (0xffffffffffff :: u64) k \<longleftrightarrow> k < 48"
proof -
  have "(0xffffffffffff :: u64) = mask 48" by (simp add: mask_eq_exp_minus_1)
  then show ?thesis by (simp only: bit_mask_iff) auto
qed

lemma small_bits:
  assumes "unat (w :: u64) < 2 ^ m" "bit w k"
  shows "k < m"
proof (rule ccontr)
  assume "\<not> k < m"
  have "take_bit m (unat w) = unat w" using assms(1) by (simp only: take_bit_nat_eq_self)
  moreover have "bit (unat w) k" using assms(2) by (simp add: bit_unsigned_iff bit_imp_le_length)
  ultimately have "bit (take_bit m (unat w)) k" by simp
  with \<open>\<not> k < m\<close> show False by (simp add: bit_take_bit_iff)
qed

lemma command_parts:
  assumes "dev < 0x100" "cmd < 0x100" "payload < 0x1000000000000"
  shows "cmd_dev (command dev cmd payload) = dev" "cmd_cmd (command dev cmd payload) = cmd"
    "cmd_payload (command dev cmd payload) = payload"
proof -
  have d: "bit dev k \<Longrightarrow> k < 8" for k
    using small_bits [of dev 8 k] assms(1) by (simp add: word_less_nat_alt)
  have c: "bit cmd k \<Longrightarrow> k < 8" for k
    using small_bits [of cmd 8 k] assms(2) by (simp add: word_less_nat_alt)
  have p: "bit payload k \<Longrightarrow> k < 48" for k
    using small_bits [of payload 48 k] assms(3) by (simp add: word_less_nat_alt)
  have bits: "bit (command dev cmd payload) k \<longleftrightarrow>
      k < 64 \<and> (if k < 48 then bit payload k else if k < 56 then bit cmd (k - 48) else bit dev (k - 56))" for k
    unfolding command_def
    by (simp only: bit_or_iff bit_and_iff bit_push_bit_iff bit_mask48) (auto dest: c d)
  show "cmd_dev (command dev cmd payload) = dev"
    unfolding cmd_dev_def by (rule bit_word_eqI) (auto simp: bit_drop_bit_eq bits dest: d)
  show "cmd_cmd (command dev cmd payload) = cmd"
    unfolding cmd_cmd_def
    by (rule bit_word_eqI)
       (simp only: bit_drop_bit_eq bit_and_iff bit_255 bits comp_apply, auto dest: c)
  show "cmd_payload (command dev cmd payload) = payload"
    unfolding cmd_payload_def
    by (rule bit_word_eqI) (simp only: bit_and_iff bits bit_mask48, auto dest: p)
qed


definition kept :: "htif \<Rightarrow> u8 list \<times> u8 list \<times> nat \<times> int \<times> lock_call list" where
  "kept h = (committed h, upcoming h, asked h, read_pending h, lock_calls h)"

text \<open>Every reply carries the valid bit, and no command is malformed.\<close>

definition well_formed :: "htif \<Rightarrow> bool" where
  "well_formed h \<longleftrightarrow> (fromhost h \<noteq> 0 \<longrightarrow> fromhost h AND 0x100 \<noteq> 0 \<and> fromhost h AND 0xff = ucast (ucast (fromhost h) :: u8))
     \<and> (tohost h = 0 \<or> is_write (tohost h) \<or> is_read (tohost h)) \<and> unknown h = []"

lemma not_write_and_read: "is_write w \<Longrightarrow> \<not> is_read w"
  by (simp add: is_write_def is_read_def)

lemma host_consume_kept: "kept (host_consume h) = kept h"
  by (auto simp: kept_def host_consume_def committed_def asked_def upcoming_def not_write_and_read)

lemma host_reply_kept: "kept (host_reply h) = kept h"
  by (auto simp: kept_def host_reply_def committed_def asked_def upcoming_def)

lemma host_do_kept: "kept (host_do a (h\<lparr>sched := as\<rparr>)) = kept (h\<lparr>sched := a # as\<rparr>)"
  by (cases a)
     (simp_all add: host_reply_kept host_consume_kept, simp_all add: kept_def committed_def asked_def upcoming_def)

lemma host_turn_kept: "kept (host_turn h) = kept h"
proof (cases "sched h")
  case Nil
  then show ?thesis by (simp add: host_turn_def host_reply_kept host_consume_kept)
next
  case (Cons a as)
  then have "h\<lparr>sched := a # as\<rparr> = h" by (cases h) simp
  with host_do_kept [of a as h] Cons show ?thesis by (simp add: host_turn_def del: host_do.simps)
qed

lemma host_do_well_formed: "well_formed h \<Longrightarrow> well_formed (host_do a h)"
  by (cases a) (auto simp: well_formed_def host_reply_def host_consume_def)

lemma well_formed_sched [simp]: "well_formed (h\<lparr>sched := as\<rparr>) = well_formed h"
  by (simp add: well_formed_def)

lemma host_turn_well_formed: "well_formed h \<Longrightarrow> well_formed (host_turn h)"
  unfolding host_turn_def
  by (cases "sched h") (simp_all only: list.case, simp_all add: host_do_well_formed del: host_do.simps)

lemma host_turn_prompt: "sched h = [] \<Longrightarrow> sched (host_turn h) = []"
  by (simp add: host_turn_def host_reply_def host_consume_def)

lemma host_turn_busy:
  assumes "tohost (host_turn h) \<noteq> 0"
  shows "length (sched (host_turn h)) < length (sched h)"
proof (cases "sched h")
  case Nil
  with assms show ?thesis by (simp add: host_turn_def host_reply_def host_consume_def split: if_splits)
next
  case (Cons a as)
  then show ?thesis by (cases a) (auto simp: host_turn_def host_reply_def host_consume_def)
qed

text \<open>The host as the other side of both loops of \<open>htif_send\<close>.\<close>

interpretation tohost_free: poller load_tohost "\<lambda>v. v = 0" "\<lambda>_. True" "\<lambda>h. length (sched h)"
  by unfold_locales (auto simp: load_tohost_def Let_def dest: host_turn_busy)

lemma wait_tohost:
  assumes "well_formed h"
  shows "\<exists>h'. spin load_tohost (\<lambda>v. v = 0) h = Some (0, h') \<and> tohost h' = 0 \<and> kept h' = kept h \<and> well_formed h'
    \<and> (sched h = [] \<longrightarrow> sched h' = [])"
proof -
  have "\<exists>w v h'. spin load_tohost (\<lambda>v. v = 0) h = Some (v, h') \<and> True
      \<and> (kept w = kept h \<and> well_formed w \<and> (sched h = [] \<longrightarrow> sched w = [])) \<and> load_tohost w = (v, h') \<and> v = 0"
    by (rule tohost_free.spin_ends)
       (use assms in \<open>auto simp: load_tohost_def Let_def host_turn_kept intro: host_turn_well_formed host_turn_prompt\<close>)
  then obtain w h' where s: "spin load_tohost (\<lambda>v. v = 0) h = Some (0, h')" and w: "kept w = kept h" "well_formed w"
      "sched h = [] \<longrightarrow> sched w = []" and rd: "load_tohost w = (0, h')" by blast
  from rd have "h' = host_turn w" "tohost h' = 0" by (auto simp: load_tohost_def Let_def)
  with s w show ?thesis by (simp add: host_turn_kept host_turn_well_formed host_turn_prompt)
qed

text \<open>A command that returns has been consumed, after everything committed before it.\<close>

lemma send_command:
  assumes "well_formed h" and w: "is_write (command dev cmd p) \<or> is_read (command dev cmd p)"
  shows "\<exists>h'. htif_send dev cmd p h = Some h' \<and> well_formed h' \<and> tohost h' = 0
    \<and> out h' = committed h
        @ (if is_write (command dev cmd p) then [ucast (cmd_payload (command dev cmd p))] else [])
    \<and> upcoming h' = upcoming h \<and> asked h' = asked h + (if is_read (command dev cmd p) then 1 else 0)
    \<and> read_pending h' = read_pending h \<and> lock_calls h' = lock_calls h \<and> (sched h = [] \<longrightarrow> sched h' = [])"
proof -
  let ?w = "command dev cmd p"
  obtain h1 where h1: "spin load_tohost (\<lambda>v. v = 0) h = Some (0, h1)" "tohost h1 = 0" "kept h1 = kept h"
    "well_formed h1" "sched h = [] \<longrightarrow> sched h1 = []" using wait_tohost [OF assms(1)] by blast
  let ?h = "h1\<lparr>tohost := ?w\<rparr>"
  have nz: "?w \<noteq> 0" using w by (auto simp: is_write_def is_read_def cmd_dev_def)
  have "well_formed ?h" using h1(4) w by (auto simp: well_formed_def)
  then obtain h2 where h2: "spin load_tohost (\<lambda>v. v = 0) ?h = Some (0, h2)" "tohost h2 = 0" "kept h2 = kept ?h"
    "well_formed h2" "sched ?h = [] \<longrightarrow> sched h2 = []" using wait_tohost [of ?h] by blast
  have "htif_send dev cmd p h = Some h2" using h1(1) h2(1) by (simp add: htif_send_def)
  moreover have "out h2 = committed h2" using h2(2) by (simp add: committed_def)
  ultimately show ?thesis
    using h1(2,3,5) h2(2,3,4,5) nz by (auto simp: kept_def committed_def asked_def upcoming_def)
qed

lemmas bcd_defs = HTIF_DEV_BCD_def HTIF_CMD_READ_def HTIF_CMD_WRITE_def

lemma u8_payload: "(ucast (c :: u8) :: u64) < 0x1000000000000"
proof -
  have "unat c < 256" using unat_less_exp [of c] by simp
  then show ?thesis by (simp add: word_less_nat_alt unsigned_ucast_eq take_bit_nat_eq_self)
qed

lemma u8_through_u64 [simp]: "ucast (ucast (c :: u8) :: u64) = c"
  by (rule bit_word_eqI) (simp add: bit_ucast_iff)

lemma write_command [simp]:
  "is_write (command 1 1 (ucast (c :: u8)))" "cmd_payload (command 1 1 (ucast (c :: u8))) = ucast c"
  using command_parts [of 1 1 "ucast c", OF _ _ u8_payload] by (simp_all add: is_write_def)

lemma read_command [simp]: "is_read (command 1 0 0)" "\<not> is_write (command 1 0 0)"
  using command_parts [of 1 0 0] by (simp_all add: is_read_def is_write_def)

lemma send_char:
  assumes "well_formed h"
  shows "\<exists>h'. htif_send HTIF_DEV_BCD HTIF_CMD_WRITE (ucast (c :: u8)) h = Some h' \<and> well_formed h'
    \<and> tohost h' = 0 \<and> out h' = committed h @ [c] \<and> upcoming h' = upcoming h \<and> asked h' = asked h
    \<and> read_pending h' = read_pending h \<and> lock_calls h' = lock_calls h \<and> (sched h = [] \<longrightarrow> sched h' = [])"
  using send_command [OF assms, of 1 1 "ucast c"] not_write_and_read [OF write_command(1), of c]
  by (simp add: bcd_defs)


section \<open>Output\<close>

lemma u8_full [simp]: "(w :: u8) AND 0xff = w"
proof -
  have "(0xff :: u8) = - 1" by simp
  then have "w AND 0xff = w AND - 1" by (simp only:)
  then show ?thesis by simp
qed

lemma u32_low_byte: "(ucast ((c :: u32) AND 0xff) :: u64) = ucast (ucast c :: u8)"
proof -
  have "(0xff :: u32) = mask 8" by (simp add: mask_eq_exp_minus_1)
  then have "bit (0xff :: u32) k \<longleftrightarrow> k < 8" for k by (simp only: bit_mask_iff) auto
  moreover have "bit c k \<Longrightarrow> k < 32" for k using bit_imp_le_length [of c k] by simp
  ultimately show ?thesis
    by (intro bit_word_eqI) (simp only: bit_ucast_iff bit_and_iff, auto)
qed

text \<open>The lock calls and the read flag are the driver's own.\<close>

lemma driver_fields [simp]:
  "committed (h\<lparr>lock_calls := ls\<rparr>) = committed h" "upcoming (h\<lparr>lock_calls := ls\<rparr>) = upcoming h"
  "asked (h\<lparr>lock_calls := ls\<rparr>) = asked h" "well_formed (h\<lparr>lock_calls := ls\<rparr>) = well_formed h"
  "committed (h\<lparr>read_pending := p\<rparr>) = committed h" "upcoming (h\<lparr>read_pending := p\<rparr>) = upcoming h"
  "asked (h\<lparr>read_pending := p\<rparr>) = asked h" "well_formed (h\<lparr>read_pending := p\<rparr>) = well_formed h"
  by (simp_all add: committed_def upcoming_def asked_def well_formed_def)

text \<open>No command is on its way: what is committed has been written.\<close>

lemma committed_out [simp]: "tohost h = 0 \<Longrightarrow> committed h = out h"
  by (simp add: committed_def)

lemma uartwrite_loop_emits:
  assumes "well_formed h"
  shows "\<exists>h'. uartwrite_loop buf i k h = Some h' \<and> well_formed h' \<and> (k \<noteq> 0 \<longrightarrow> tohost h' = 0)
    \<and> committed h' = committed h @ map buf [i..<i + k]
    \<and> upcoming h' = upcoming h \<and> asked h' = asked h
    \<and> read_pending h' = read_pending h \<and> lock_calls h' = lock_calls h \<and> (sched h = [] \<longrightarrow> sched h' = [])"
  using assms
proof (induction k arbitrary: i h)
  case 0
  then show ?case by simp
next
  case (Suc k)
  from send_char [OF Suc.prems, of "buf i"] obtain h1 where
    h1: "htif_send HTIF_DEV_BCD HTIF_CMD_WRITE (ucast (buf i)) h = Some h1" "well_formed h1"
      "tohost h1 = 0" "out h1 = committed h @ [buf i]" "upcoming h1 = upcoming h" "asked h1 = asked h"
      "read_pending h1 = read_pending h" "lock_calls h1 = lock_calls h" "sched h = [] \<longrightarrow> sched h1 = []" by blast
  from Suc.IH [OF h1(2), of "i + 1"] obtain h2 where
    "uartwrite_loop buf (i + 1) k h1 = Some h2" "well_formed h2" "k \<noteq> 0 \<longrightarrow> tohost h2 = 0"
      "committed h2 = committed h1 @ map buf [i + 1..<i + 1 + k]" "upcoming h2 = upcoming h1"
      "asked h2 = asked h1" "read_pending h2 = read_pending h1" "lock_calls h2 = lock_calls h1"
      "sched h1 = [] \<longrightarrow> sched h2 = []" by blast
  moreover from this h1(3) have "tohost h2 = 0" by (cases k) auto
  moreover have "map buf [i..<i + Suc k] = buf i # map buf [i + 1..<i + 1 + k]"
    by (simp add: upt_conv_Cons del: upt_Suc)
  ultimately show ?case
    using h1 by (intro exI [of _ h2]) (simp del: upt_Suc)
qed

text \<open>
  C7: \<open>uartwrite(buf, n)\<close> terminates against any host pace and puts exactly the first \<open>n\<close>
  characters of the buffer on the console, in order and once each, every command consumed before
  it returns, under the lock, without touching the input path.
\<close>

theorem uartwrite_emits:
  assumes "well_formed h" "tohost h = 0"
  shows "\<exists>h'. uartwrite buf n h = Some h' \<and> well_formed h' \<and> tohost h' = 0
    \<and> out h' = out h @ map buf [0..<nat n]
    \<and> lock_calls h' = lock_calls h @ [AcquireTx, ReleaseTx]
    \<and> upcoming h' = upcoming h \<and> asked h' = asked h"
proof -
  let ?h = "h\<lparr>lock_calls := lock_calls h @ [AcquireTx]\<rparr>"
  have "well_formed ?h" using assms(1) by (simp add: well_formed_def)
  from uartwrite_loop_emits [OF this, of buf 0 "nat n"] obtain h' where
    h': "uartwrite_loop buf 0 (nat n) ?h = Some h'" "well_formed h'" "nat n \<noteq> 0 \<longrightarrow> tohost h' = 0"
      "committed h' = committed ?h @ map buf [0..<nat n]" "upcoming h' = upcoming ?h" "asked h' = asked ?h"
      "lock_calls h' = lock_calls ?h" by auto
  have "tohost h' = 0" using h'(1,3) assms(2) by (cases "nat n") auto
  with h' assms(2) show ?thesis by (simp add: uartwrite_def)
qed

lemma uartputc_emits:
  assumes "well_formed h"
  shows "\<exists>h'. uartputc_sync c h = Some h' \<and> well_formed h' \<and> tohost h' = 0
    \<and> out h' = committed h @ [ucast c] \<and> upcoming h' = upcoming h \<and> asked h' = asked h
    \<and> read_pending h' = read_pending h \<and> lock_calls h' = lock_calls h \<and> (sched h = [] \<longrightarrow> sched h' = [])"
  using send_char [OF assms, of "ucast c"] by (auto simp: uartputc_sync_def u32_low_byte)


section \<open>Input\<close>

text \<open>The driver's flag says whether a read is outstanding, and there is never more than one.\<close>

definition console_inv :: "htif \<Rightarrow> bool" where
  "console_inv h \<longleftrightarrow> well_formed h \<and> asked h = (if read_pending h \<noteq> 0 then 1 else 0)"

lemma load_fromhost_eq: "load_fromhost h = (fromhost (host_turn h), host_turn h)"
  by (simp add: load_fromhost_def Let_def)

lemma keptD:
  assumes "kept h' = kept h"
  shows "committed h' = committed h" "upcoming h' = upcoming h" "asked h' = asked h"
    "read_pending h' = read_pending h" "lock_calls h' = lock_calls h"
  using assms by (simp_all add: kept_def)

lemma uint_u8_through_u64: "uint (ucast (c :: u8) :: u64) = uint c"
  by (rule uint_up_ucast) (simp add: is_up)

lemma received_char: "uint (c :: u8) \<noteq> - 1" "(word_of_int (uint c) :: u32) = ucast c"
proof -
  show "uint c \<noteq> - 1" using uint_ge_0 [of c] by linarith
  show "(word_of_int (uint c) :: u32) = ucast c" by (rule ucast_eq [symmetric])
qed

lemma getc_reply:
  assumes "well_formed h" "fromhost (host_turn h) \<noteq> 0"
  shows "\<exists>h' c. htif_getc h = Some (uint (c :: u8), h') \<and> well_formed h' \<and> upcoming h = c # upcoming h'
    \<and> asked h = Suc (asked h') \<and> read_pending h' = 0 \<and> committed h' = committed h
    \<and> lock_calls h' = lock_calls h \<and> (sched h = [] \<longrightarrow> sched h' = [])"
proof -
  let ?t = "host_turn h" and ?c = "ucast (fromhost (host_turn h)) :: u8"
  note k = keptD [OF host_turn_kept [of h]]
  have wf: "well_formed ?t" by (rule host_turn_well_formed [OF assms(1)])
  then have v: "fromhost ?t AND 0x100 \<noteq> 0" "fromhost ?t AND 0xff = ucast ?c"
    using assms(2) by (simp_all add: well_formed_def)
  have u: "uint (ucast ?c :: u64) = uint ?c" by (rule uint_u8_through_u64)
  have "htif_getc h = Some (uint ?c, ?t\<lparr>fromhost := 0, read_pending := 0\<rparr>)"
    using assms(2) v(1) by (simp add: htif_getc_def load_fromhost_eq v(2) u)
  moreover have "upcoming ?t = ?c # upcoming (?t\<lparr>fromhost := 0, read_pending := 0\<rparr>)"
    using assms(2) by (simp add: upcoming_def)
  moreover have "asked ?t = Suc (asked (?t\<lparr>fromhost := 0, read_pending := 0\<rparr>))"
    using assms(2) by (simp add: asked_def)
  moreover have "committed (?t\<lparr>fromhost := 0, read_pending := 0\<rparr>) = committed ?t"
    by (simp add: committed_def)
  moreover have "well_formed (?t\<lparr>fromhost := 0, read_pending := 0\<rparr>)"
    using wf by (simp add: well_formed_def)
  ultimately show ?thesis
    using k host_turn_prompt [of h]
    by (intro exI [of _ "?t\<lparr>fromhost := 0, read_pending := 0\<rparr>"] exI [of _ ?c]) simp
qed

lemma getc_no_reply:
  assumes "well_formed h" "fromhost (host_turn h) = 0"
  shows "\<exists>h'. htif_getc h = Some (- 1, h') \<and> well_formed h' \<and> upcoming h' = upcoming h
    \<and> asked h' = asked h + (if read_pending h = 0 then 1 else 0) \<and> read_pending h' \<noteq> 0
    \<and> committed h' = committed h \<and> lock_calls h' = lock_calls h \<and> (sched h = [] \<longrightarrow> sched h' = [])"
proof -
  let ?t = "host_turn h"
  note k = keptD [OF host_turn_kept [of h]]
  have wf: "well_formed ?t" by (rule host_turn_well_formed [OF assms(1)])
  show ?thesis
  proof (cases "read_pending h = 0")
    case True
    obtain h' where h': "htif_send 1 0 0 ?t = Some h'" "well_formed h'" "tohost h' = 0"
      "out h' = committed ?t" "upcoming h' = upcoming ?t" "asked h' = asked ?t + 1"
      "read_pending h' = read_pending ?t" "lock_calls h' = lock_calls ?t" "sched ?t = [] \<longrightarrow> sched h' = []"
      using send_command [OF wf, of 1 0 0] by auto
    then have "htif_getc h = Some (- 1, h'\<lparr>read_pending := 1\<rparr>)"
      using True k(4) assms(2) by (simp add: htif_getc_def load_fromhost_eq bcd_defs)
    with h' k True host_turn_prompt [of h] show ?thesis by simp
  next
    case False
    then have "htif_getc h = Some (- 1, ?t)"
      using k(4) assms(2) by (simp add: htif_getc_def load_fromhost_eq)
    with k wf False host_turn_prompt [of h] show ?thesis by simp
  qed
qed

lemma getc_step:
  assumes "console_inv h"
  shows "\<exists>r h'. htif_getc h = Some (r, h') \<and> console_inv h' \<and> committed h' = committed h
    \<and> lock_calls h' = lock_calls h \<and> (sched h = [] \<longrightarrow> sched h' = [])
    \<and> (r = - 1 \<and> upcoming h' = upcoming h \<and> read_pending h' \<noteq> 0
       \<or> (\<exists>c :: u8. r = uint c \<and> upcoming h = c # upcoming h'))"
proof (cases "fromhost (host_turn h) = 0")
  case True
  with assms getc_no_reply [OF _ True] show ?thesis
    by (fastforce simp: console_inv_def)
next
  case False
  with assms getc_reply [OF _ False] show ?thesis
    by (fastforce simp: console_inv_def split: if_splits)
qed

section \<open>The line discipline\<close>

text \<open>
  \<open>cook w c\<close>: what a line discipline in state \<open>w\<close> does with the character \<open>c\<close>, its next state and the
  characters it shows (an echo, a newline for a carriage return, an erased character, nothing);
  \<open>cooked\<close>: with a sequence of characters.
\<close>

fun cooked :: "('w \<Rightarrow> u8 \<Rightarrow> 'w \<times> u8 list) \<Rightarrow> 'w \<Rightarrow> u8 list \<Rightarrow> 'w \<times> u8 list" where
  "cooked cook w [] = (w, [])"
| "cooked cook w (c # cs) =
     (fst (cooked cook (fst (cook w c)) cs), snd (cook w c) @ snd (cooked cook (fst (cook w c)) cs))"

lemma cooked_append:
  "cooked cook w (cs @ ds) =
     (fst (cooked cook (fst (cooked cook w cs)) ds), snd (cooked cook w cs) @ snd (cooked cook (fst (cooked cook w cs)) ds))"
  by (induction cs arbitrary: w) simp_all

text \<open>
  What is relied on of \<open>consoleintr\<close>: it returns, shows its characters through the driver's output and
  leaves the input path alone.
\<close>

definition obeys :: "(u32 \<Rightarrow> 'w \<times> htif \<Rightarrow> ('w \<times> htif) option) \<Rightarrow> ('w \<Rightarrow> u8 \<Rightarrow> 'w \<times> u8 list) \<Rightarrow> bool" where
  "obeys consoleintr cook \<longleftrightarrow> (\<forall>w h c. console_inv h \<longrightarrow>
     (\<exists>h'. consoleintr (ucast c) (w, h) = Some (fst (cook w c), h') \<and> console_inv h' \<and> upcoming h' = upcoming h
       \<and> committed h' = committed h @ snd (cook w c) \<and> (sched h = [] \<longrightarrow> sched h' = [])))"

locale line_discipline =
  fixes consoleintr :: "u32 \<Rightarrow> 'w \<times> htif \<Rightarrow> ('w \<times> htif) option" and cook :: "'w \<Rightarrow> u8 \<Rightarrow> 'w \<times> u8 list"
  assumes handles: "console_inv h \<Longrightarrow> \<exists>h'. consoleintr (ucast c) (w, h) = Some (fst (cook w c), h')
    \<and> console_inv h' \<and> upcoming h' = upcoming h \<and> committed h' = committed h @ snd (cook w c)
    \<and> (sched h = [] \<longrightarrow> sched h' = [])"
begin

lemma uartintr_returns:
  assumes "console_inv h"
  shows "\<exists>h' cs. uartintr consoleintr (w, h) = Some (fst (cooked cook w cs), h') \<and> console_inv h'
    \<and> read_pending h' \<noteq> 0 \<and> upcoming h = cs @ upcoming h'
    \<and> committed h' = committed h @ snd (cooked cook w cs) \<and> (sched h = [] \<longrightarrow> sched h' = [])"
  using assms
proof (induction "length (upcoming h)" arbitrary: w h rule: less_induct)
  case less
  obtain r h1 where g: "htif_getc h = Some (r, h1)" "console_inv h1" "committed h1 = committed h"
    "sched h = [] \<longrightarrow> sched h1 = []"
    and r: "r = - 1 \<and> upcoming h1 = upcoming h \<and> read_pending h1 \<noteq> 0
      \<or> (\<exists>c :: u8. r = uint c \<and> upcoming h = c # upcoming h1)"
    using getc_step [OF less.prems] by blast
  from r show ?case
  proof (elim disjE exE conjE)
    assume "r = - 1" "upcoming h1 = upcoming h" "read_pending h1 \<noteq> 0"
    with g show ?thesis
      by (intro exI [of _ h1] exI [of _ "[]"]) (simp add: uartintr.simps [of _ "(w, h)"])
  next
    fix c :: u8
    assume c: "r = uint c" "upcoming h = c # upcoming h1"
    have ge: "r \<noteq> - 1" and u: "(word_of_int r :: u32) = ucast c"
      unfolding c(1) by (rule received_char)+
    obtain h2 where h2: "consoleintr (ucast c) (w, h1) = Some (fst (cook w c), h2)" "console_inv h2"
      "upcoming h2 = upcoming h1" "committed h2 = committed h1 @ snd (cook w c)" "sched h1 = [] \<longrightarrow> sched h2 = []"
      using handles [OF g(2)] by blast
    have "length (upcoming h2) < length (upcoming h)" using c h2(3) by simp
    from less.hyps [OF this h2(2), of "fst (cook w c)"] obtain h' cs where
      "uartintr consoleintr (fst (cook w c), h2) = Some (fst (cooked cook (fst (cook w c)) cs), h')" "console_inv h'"
      "read_pending h' \<noteq> 0" "upcoming h2 = cs @ upcoming h'"
      "committed h' = committed h2 @ snd (cooked cook (fst (cook w c)) cs)" "sched h2 = [] \<longrightarrow> sched h' = []"
      by blast
    moreover have "uartintr consoleintr (w, h) = uartintr consoleintr (fst (cook w c), h2)"
      using g(1) h2(1) ge u by (simp add: uartintr.simps [of _ "(w, h)"])
    ultimately show ?thesis
      using g(3,4) c(2) h2(3-5) by (intro exI [of _ h'] exI [of _ "c # cs"]) simp
  qed
qed

text \<open>With a prompt host, a tick after the first picks up at least one waiting character.\<close>

lemma uartintr_progress:
  assumes "console_inv h" "read_pending h \<noteq> 0" "sched h = []" "upcoming h = c # cs"
  shows "\<exists>h' ds. uartintr consoleintr (w, h) = Some (fst (cooked cook w (c # ds)), h') \<and> console_inv h'
    \<and> read_pending h' \<noteq> 0 \<and> sched h' = [] \<and> cs = ds @ upcoming h'
    \<and> committed h' = committed h @ snd (cooked cook w (c # ds))"
proof -
  have "fromhost (host_turn h) \<noteq> 0"
    using assms
    by (auto simp: console_inv_def well_formed_def asked_def upcoming_def host_turn_def host_reply_def
        host_consume_def not_write_and_read split: if_splits)
  from getc_reply [OF _ this] obtain h1 c' where g: "htif_getc h = Some (uint (c' :: u8), h1)"
    "well_formed h1" "upcoming h = c' # upcoming h1" "asked h = Suc (asked h1)" "read_pending h1 = 0"
    "committed h1 = committed h" "sched h = [] \<longrightarrow> sched h1 = []"
    using assms(1) unfolding console_inv_def by blast
  with assms(4) have c': "c' = c" "upcoming h1 = cs" by simp_all
  have i1: "console_inv h1" using g assms(1,2) by (simp add: console_inv_def)
  obtain h2 where h2: "consoleintr (ucast c) (w, h1) = Some (fst (cook w c), h2)" "console_inv h2"
      "upcoming h2 = upcoming h1" "committed h2 = committed h1 @ snd (cook w c)" "sched h1 = [] \<longrightarrow> sched h2 = []"
    using handles [OF i1] by blast
  obtain h' ds where "uartintr consoleintr (fst (cook w c), h2) = Some (fst (cooked cook (fst (cook w c)) ds), h')"
    "console_inv h'" "read_pending h' \<noteq> 0" "upcoming h2 = ds @ upcoming h'"
    "committed h' = committed h2 @ snd (cooked cook (fst (cook w c)) ds)" "sched h2 = [] \<longrightarrow> sched h' = []"
    using uartintr_returns [OF h2(2)] by blast
  moreover have "uartintr consoleintr (w, h) = uartintr consoleintr (fst (cook w c), h2)"
    using g(1) c' h2(1) received_char [of c] by (simp add: uartintr.simps [of _ "(w, h)"])
  ultimately show ?thesis
    using g h2 c' assms(3) by (intro exI [of _ h'] exI [of _ ds]) simp
qed

text \<open>A poll, with what it leaves for the polls to come.\<close>

lemma poll_step:
  assumes "console_inv h"
  shows "\<exists>h' cs. uartintr consoleintr (w, h) = Some (fst (cooked cook w cs), h') \<and> console_inv h'
    \<and> upcoming h = cs @ upcoming h' \<and> committed h' = committed h @ snd (cooked cook w cs)
    \<and> (sched h = [] \<longrightarrow> sched h' = []) \<and> read_pending h' \<noteq> 0
    \<and> (sched h = [] \<and> read_pending h \<noteq> 0 \<and> upcoming h \<noteq> [] \<longrightarrow> cs \<noteq> [])"
proof (cases "read_pending h \<noteq> 0 \<and> sched h = [] \<and> upcoming h \<noteq> []")
  case True
  then obtain c cs where c: "upcoming h = c # cs" by (cases "upcoming h") auto
  with True uartintr_progress [OF assms _ _ c, of w] obtain h' ds where
    "uartintr consoleintr (w, h) = Some (fst (cooked cook w (c # ds)), h')" "console_inv h'" "read_pending h' \<noteq> 0"
    "sched h' = []" "cs = ds @ upcoming h'" "committed h' = committed h @ snd (cooked cook w (c # ds))" by blast
  with c show ?thesis by (intro exI [of _ h'] exI [of _ "c # ds"]) simp
next
  case False
  with uartintr_returns [OF assms, of w] show ?thesis by blast
qed

end

lemma obeys_discipline: "obeys consoleintr cook \<Longrightarrow> line_discipline consoleintr cook"
  by (simp add: obeys_def line_discipline_def)

lemma putc_inv:
  assumes "console_inv h"
  shows "\<exists>h'. uartputc_sync (ucast (c :: u8)) h = Some h' \<and> console_inv h' \<and> upcoming h' = upcoming h
    \<and> committed h' = committed h @ [c] \<and> (sched h = [] \<longrightarrow> sched h' = [])"
proof -
  have "(ucast (ucast c :: u32) :: u8) = c" by (rule bit_word_eqI) (simp add: bit_ucast_iff)
  then show ?thesis
    using uartputc_emits [of h "ucast c"] assms by (fastforce simp: console_inv_def)
qed

text \<open>
  Every line discipline that shows its characters with \<open>uartputc_sync\<close>, which is what the comment at
  \<open>uartputc_sync\<close> says of the console, obeys: whatever it computes.
\<close>

fun put_all :: "u8 list \<Rightarrow> htif \<Rightarrow> htif option" where
  "put_all [] h = Some h"
| "put_all (c # cs) h = (case uartputc_sync (ucast c) h of None \<Rightarrow> None | Some h \<Rightarrow> put_all cs h)"

definition line_by :: "('w \<Rightarrow> u8 \<Rightarrow> 'w \<times> u8 list) \<Rightarrow> u32 \<Rightarrow> 'w \<times> htif \<Rightarrow> ('w \<times> htif) option" where
  "line_by cook c s = map_option (Pair (fst (cook (fst s) (ucast c)))) (put_all (snd (cook (fst s) (ucast c))) (snd s))"

lemma put_all_inv:
  assumes "console_inv h"
  shows "\<exists>h'. put_all cs h = Some h' \<and> console_inv h' \<and> upcoming h' = upcoming h
    \<and> committed h' = committed h @ cs \<and> (sched h = [] \<longrightarrow> sched h' = [])"
  using assms
proof (induction cs arbitrary: h)
  case Nil
  then show ?case by simp
next
  case (Cons c cs)
  obtain h1 where h1: "uartputc_sync (ucast c) h = Some h1" "console_inv h1" "upcoming h1 = upcoming h"
    "committed h1 = committed h @ [c]" "sched h = [] \<longrightarrow> sched h1 = []"
    using putc_inv [OF Cons.prems] by blast
  with Cons.IH [OF h1(2)] show ?case by auto
qed

lemma line_by_obeys: "obeys (line_by cook) cook"
proof -
  have c: "(ucast (ucast c :: u32) :: u8) = c" for c :: u8
    by (rule bit_word_eqI) (simp add: bit_ucast_iff)
  show ?thesis
    using put_all_inv by (fastforce simp: obeys_def line_by_def c)
qed

interpretation line: line_discipline "line_by cook" cook for cook
  by (rule obeys_discipline [OF line_by_obeys])

section \<open>The console over time\<close>

text \<open>
  The kernel's calls and the host's turns in any order, with the line discipline in any state at each
  poll. The only input that grows the stream of characters is the user's.
\<close>

inductive console_step :: "(u32 \<Rightarrow> 'w \<times> htif \<Rightarrow> ('w \<times> htif) option) \<Rightarrow> htif \<Rightarrow> htif \<Rightarrow> bool" for ci where
  host: "console_step ci h (host_do a h)"
| putc: "uartputc_sync c h = Some h' \<Longrightarrow> console_step ci h h'"
| wrt: "uartwrite buf n h = Some h' \<Longrightarrow> console_step ci h h'"
| intr: "uartintr ci (w, h) = Some (w', h') \<Longrightarrow> console_step ci h h'"

inductive console_reachable :: "(u32 \<Rightarrow> 'w \<times> htif \<Rightarrow> ('w \<times> htif) option) \<Rightarrow> htif \<Rightarrow> bool" for ci where
  boot: "tohost h = 0 \<Longrightarrow> fromhost h = 0 \<Longrightarrow> reads h = 0 \<Longrightarrow> unknown h = []
    \<Longrightarrow> console_reachable ci (uartinit h)"
| step: "console_reachable ci h \<Longrightarrow> console_step ci h h' \<Longrightarrow> console_reachable ci h'"

lemma write_inv:
  assumes "console_inv h"
  shows "\<exists>h'. uartwrite buf n h = Some h' \<and> console_inv h' \<and> committed h' = committed h @ map buf [0..<nat n]
    \<and> upcoming h' = upcoming h \<and> read_pending h' = read_pending h \<and> (sched h = [] \<longrightarrow> sched h' = [])"
proof -
  let ?h = "h\<lparr>lock_calls := lock_calls h @ [AcquireTx]\<rparr>"
  have "well_formed ?h" using assms by (simp add: console_inv_def)
  from uartwrite_loop_emits [OF this, of buf 0 "nat n"] assms show ?thesis
    by (auto simp: uartwrite_def console_inv_def)
qed

lemma host_do_asked: "asked (host_do a h) = asked h" "read_pending (host_do a h) = read_pending h"
proof -
  have "kept (host_do a (h\<lparr>sched := sched h\<rparr>)) = kept (h\<lparr>sched := a # sched h\<rparr>)"
    by (rule host_do_kept)
  then show "asked (host_do a h) = asked h" "read_pending (host_do a h) = read_pending h"
    by (simp_all add: kept_def asked_def del: host_do.simps)
qed

lemma console_step_inv:
  assumes "obeys ci cook" "console_step ci h h'" "console_inv h"
  shows "console_inv h'"
  using assms(2)
proof (cases rule: console_step.cases)
  case (host a)
  with assms(3) show ?thesis
    by (simp add: console_inv_def host_do_well_formed host_do_asked del: host_do.simps)
next
  case (putc c)
  with assms(3) uartputc_emits [of h c] show ?thesis by (auto simp: console_inv_def)
next
  case (wrt buf n)
  with write_inv [OF assms(3), of buf n] show ?thesis by auto
next
  case (intr w w')
  with line_discipline.uartintr_returns [OF obeys_discipline [OF assms(1)] assms(3), of w] show ?thesis by auto
qed

text \<open>
  C18: After \<open>uartinit\<close>, with any line discipline that keeps to the driver's output (\<open>obeys\<close>), whatever
  the order of output calls, polls, host turns and key strokes, at most one read command is outstanding
  and \<open>read_pending\<close> says whether one is, the host never sees a command it does not know, and each of
  the three entry points returns.
\<close>

theorem console_never_stuck:
  assumes "obeys consoleintr cook" "console_reachable consoleintr h"
  shows "console_inv h \<and> asked h \<le> 1 \<and> unknown h = []
    \<and> (\<exists>h'. uartputc_sync c h = Some h') \<and> (\<exists>h'. uartwrite buf n h = Some h')
    \<and> (\<exists>s'. uartintr consoleintr (w, h) = Some s')"
proof -
  have inv: "console_inv h"
    using assms(2)
  proof induction
    case (boot h)
    then show ?case by (simp add: console_inv_def well_formed_def uartinit_def asked_def)
  next
    case (step h h')
    then show ?case by (blast intro: console_step_inv [OF assms(1)])
  qed
  moreover from inv have "asked h \<le> 1" "unknown h = []" "well_formed h"
    by (simp_all add: console_inv_def well_formed_def)
  ultimately show ?thesis
    using uartputc_emits [of h c] write_inv [OF inv, of buf n]
      line_discipline.uartintr_returns [OF obeys_discipline [OF assms(1)] inv, of w] by blast
qed

section \<open>Witnesses\<close>

definition sample_console :: "host_act list \<Rightarrow> htif" where
  "sample_console as = \<lparr>tohost = 0, fromhost = 0, read_pending = 0, lock_calls = [], out = [], keys = [104, 105],
     reads = 0, unknown = [], sched = as\<rparr>"

lemma sample_console_inv: "console_inv (sample_console as)"
  by (simp add: sample_console_def console_inv_def well_formed_def asked_def)

theorem uartwrite_emits_witness:
  "\<exists>h'. uartwrite (\<lambda>i. of_nat (65 + i)) 3 (sample_console [Pause, Key 33, Poll, Pause]) = Some h'
    \<and> out h' = [65, 66, 67] \<and> lock_calls h' = [AcquireTx, ReleaseTx]"
proof -
  have "[0..<3] = [0, 1, 2 :: nat]" by (simp add: upt_conv_Cons)
  then show ?thesis
    using uartwrite_emits [of "sample_console [Pause, Key 33, Poll, Pause]" "\<lambda>i. of_nat (65 + i)" 3]
    by (auto simp: sample_console_def well_formed_def)
qed

text \<open>
  A line discipline with a line buffer: a carriage return counts as a newline and ends the line, a
  delete erases a character of the line if there is one, everything else is echoed.
\<close>

fun edit_line :: "u8 list \<Rightarrow> u8 \<Rightarrow> u8 list \<times> u8 list" where
  "edit_line l c =
     (if c = 13 \<or> c = 10 then ([], [10])
      else if c = 127 then (case l of [] \<Rightarrow> ([], []) | _ # l \<Rightarrow> (l, [8, 32, 8]))
      else (c # l, [c]))"

theorem console_never_stuck_witness:
  "console_inv (uartinit (sample_console [Key 127, Pause]))
   \<and> (\<exists>s'. uartintr (line_by edit_line) ([], uartinit (sample_console [Key 127, Pause])) = Some s')"
  using console_never_stuck [OF line_by_obeys [of edit_line]
      console_reachable.boot [of "sample_console [Key 127, Pause]"], of _ _ _ "[]"]
  by (simp add: sample_console_def)

end
