(* ===== verification/FsblRom.thy ===== *)
theory FsblRom
  imports Prelude
begin

text \<open>
  The byte copies of the first stage boot loader, \<open>memcpy_rom\<close> and \<open>strcpy_rom\<close> (\<open>fsbl/main.c\<close>), over
  a 32-bit address space of bytes. \<open>char\<close> is a byte.
\<close>

type_synonym rmem = "u32 \<Rightarrow> u8"

definition ld_rom :: "rmem \<Rightarrow> u32 \<Rightarrow> u8" where
  "ld_rom m a = m a"

definition st_rom :: "u32 \<Rightarrow> u8 \<Rightarrow> rmem \<Rightarrow> rmem" where
  "st_rom a v m = m(a := v)"

interpretation rom: byte_store ld_rom st_rom
  by unfold_locales (simp add: ld_rom_def st_rom_def)

section \<open>memcpy\_rom\<close>

text \<open>\<open>while (n-- != 0) *dst++ = *src++;\<close>\<close>

function memcpy_loop :: "u32 \<Rightarrow> u32 \<Rightarrow> u32 \<Rightarrow> rmem \<Rightarrow> rmem" where
  "memcpy_loop dst src n m =
     (if n \<noteq> 0 then memcpy_loop (dst + 1) (src + 1) (n - 1) (st_rom dst (ld_rom m src) m) else m)"
  by pat_completeness auto

termination
proof (relation "measure (\<lambda>(_, _, n, _). unat n)")
  fix dst src n :: u32 and m
  assume "n \<noteq> 0"
  then show "((dst + 1, src + 1, n - 1, st_rom dst (ld_rom m src) m), dst, src, n, m)
      \<in> measure (\<lambda>(_, _, n, _). unat n)"
    by (simp add: unat_minus_one unat_gt_0)
qed simp

declare memcpy_loop.simps [simp del]

definition memcpy_rom :: "u32 \<Rightarrow> u32 \<Rightarrow> u32 \<Rightarrow> rmem \<Rightarrow> u32 \<times> rmem" where
  "memcpy_rom s1 s2 n m = (s1, memcpy_loop s1 s2 n m)"

lemma memcpy_loop_copy_up: "memcpy_loop dst src n m = copy_up ld_rom st_rom (unat n) dst src m"
proof (induction dst src n m rule: memcpy_loop.induct)
  case (1 dst src n m)
  show ?case
  proof (cases "n = 0")
    case True
    then show ?thesis by (subst memcpy_loop.simps) simp
  next
    case False
    then have "unat n = Suc (unat (n - 1))" by (simp add: unat_minus_one unat_gt_0)
    with 1 False show ?thesis by (subst memcpy_loop.simps) simp
  qed
qed

text \<open>
  C28: \<open>memcpy_rom\<close> returns its destination and, unless the destination starts within the \<open>n\<close>
  bytes above the source, leaves there the old contents of the source for any \<open>n\<close> and any addresses,
  changing nothing else.
\<close>

theorem memcpy_rom_copies:
  assumes "s1 = s2 \<or> n \<le> s1 - s2"
  shows "fst (memcpy_rom s1 s2 n m) = s1
    \<and> (\<forall>a. snd (memcpy_rom s1 s2 n m) a = (if a - s1 < n then m (s2 + (a - s1)) else m a))"
proof -
  have "unat n \<le> 2 ^ 32" using unat_less_exp [of n] by simp
  moreover have "s1 = s2 \<or> unat n \<le> unat (s1 - s2)" using assms by (simp add: word_le_nat_alt)
  ultimately have "ld_rom (copy_up ld_rom st_rom (unat n) s1 s2 m) a =
      (if unat (a - s1) < unat n then ld_rom m (s2 + (a - s1)) else ld_rom m a)" for a
    by (intro rom.ld_copy_up) simp_all
  then show ?thesis
    by (simp add: memcpy_rom_def memcpy_loop_copy_up ld_rom_def word_less_nat_alt)
qed

section \<open>strcpy\_rom\<close>

text \<open>\<open>for (i = 0; Src[i] != 0; ++i) Dest[i] = Src[i];\<close>\<close>

partial_function (option) strcpy_loop :: "u32 \<Rightarrow> u32 \<Rightarrow> u32 \<Rightarrow> rmem \<Rightarrow> (u32 \<times> rmem) option" where
  "strcpy_loop dest src i m =
     (if ld_rom m (src + i) \<noteq> 0
      then strcpy_loop dest src (i + 1) (st_rom (dest + i) (ld_rom m (src + i)) m)
      else Some (i, m))"

definition strcpy_rom :: "u32 \<Rightarrow> u32 \<Rightarrow> rmem \<Rightarrow> (u32 \<times> rmem) option" where
  "strcpy_rom dest src m =
     (case strcpy_loop dest src 0 m of
        None \<Rightarrow> None
      | Some (i, m) \<Rightarrow> Some (dest, st_rom (dest + i) 0 m))"

text \<open>A string of \<open>k\<close> bytes before its terminator.\<close>

definition string_at :: "rmem \<Rightarrow> u32 \<Rightarrow> nat \<Rightarrow> bool" where
  "string_at m s k \<longleftrightarrow> (\<forall>j < k. m (s + of_nat j) \<noteq> 0) \<and> m (s + of_nat k) = 0"

text \<open>No byte of the first region of \<open>k + 1\<close> bytes lies in the second.\<close>

definition apart :: "u32 \<Rightarrow> u32 \<Rightarrow> nat \<Rightarrow> bool" where
  "apart a b k \<longleftrightarrow> k < unat (a - b) \<and> k < unat (b - a)"

lemma apart_neq:
  assumes "apart a b k" "i \<le> k" "l \<le> k"
  shows "b + of_nat l \<noteq> a + of_nat i"
proof
  have k: "k < 2 ^ 32" using assms(1) unat_less_exp [of "a - b"] by (simp add: apart_def)
  assume eq: "b + of_nat l = a + of_nat i"
  show False
  proof (cases "i \<le> l")
    case True
    then have "a - b = of_nat (l - i)" using eq by (simp add: of_nat_diff algebra_simps)
    with k assms show False by (auto simp: apart_def unat_of_nat)
  next
    case False
    then have "b - a = of_nat (i - l)" using eq by (simp add: of_nat_diff algebra_simps)
    with k assms show False by (auto simp: apart_def unat_of_nat)
  qed
qed

lemma strcpy_loop_copies:
  assumes "i + j = k" "string_at m src k" "apart dest src k"
  shows "strcpy_loop dest src (of_nat i) m =
    Some (of_nat k, copy_up ld_rom st_rom j (dest + of_nat i) (src + of_nat i) m)"
  using assms
proof (induction j arbitrary: i m)
  case 0
  then show ?case by (simp add: string_at_def ld_rom_def strcpy_loop.simps [of _ _ "of_nat k"])
next
  case (Suc j)
  let ?m = "st_rom (dest + of_nat i) (ld_rom m (src + of_nat i)) m"
  have far: "src + of_nat l \<noteq> dest + of_nat i" if "l \<le> k" for l
    using apart_neq [OF Suc.prems(3) _ that, of i] Suc.prems(1) by simp
  have "string_at ?m src k"
    using Suc.prems(2) far by (simp add: string_at_def st_rom_def)
  moreover have "ld_rom m (src + of_nat i) \<noteq> 0"
    using Suc.prems(1,2) by (simp add: string_at_def ld_rom_def)
  ultimately show ?case
    using Suc.IH [of "i + 1" ?m] Suc.prems(1,3)
    by (simp add: strcpy_loop.simps [of _ _ "of_nat i"] add.assoc add.commute [of 1])
qed

text \<open>
  For a terminated source string that does not overlap the destination, \<open>strcpy_rom\<close>
  returns its destination, which then holds the string and its terminator; no other byte changes.
\<close>

theorem strcpy_rom_copies:
  assumes "string_at m src k" "apart dest src k"
  shows "\<exists>m'. strcpy_rom dest src m = Some (dest, m')
    \<and> (\<forall>a. m' a = (if unat (a - dest) \<le> k then m (src + (a - dest)) else m a))"
proof -
  let ?c = "copy_up ld_rom st_rom k dest src m"
  have k: "k < 2 ^ 32" "k < unat (dest - src)"
    using assms(2) unat_less_exp [of "dest - src"] by (simp_all add: apart_def)
  have "strcpy_rom dest src m = Some (dest, st_rom (dest + of_nat k) 0 ?c)"
    using strcpy_loop_copies [of 0 k k m src dest] assms by (simp add: strcpy_rom_def)
  moreover have "st_rom (dest + of_nat k) 0 ?c a = (if unat (a - dest) \<le> k then m (src + (a - dest)) else m a)"
    for a
  proof (cases "a = dest + of_nat k")
    case True
    then show ?thesis using assms(1) k(1) by (simp add: st_rom_def string_at_def unat_of_nat)
  next
    case False
    then have "unat (a - dest) \<le> k \<longleftrightarrow> unat (a - dest) < k"
      using unat_less_Suc_diff [of k a dest] k(1) by auto
    moreover have "ld_rom ?c a = (if unat (a - dest) < k then ld_rom m (src + (a - dest)) else ld_rom m a)"
      by (rule rom.ld_copy_up) (use k in simp_all)
    ultimately show ?thesis using False by (simp add: st_rom_def ld_rom_def)
  qed
  ultimately show ?thesis by blast
qed

lemma strcpy_loop_chases:
  assumes ret: "strcpy_loop dest src i m = Some r" and "dest = src + 1" "ld_rom m (src + i) \<noteq> 0"
  shows False
proof -
  let ?P = "\<lambda>dest src i m (r :: u32 \<times> rmem). dest = src + 1 \<longrightarrow> ld_rom m (src + i) \<noteq> 0 \<longrightarrow> False"
  have "?P dest src i m r"
  proof (rule strcpy_loop.raw_induct [where P = ?P, OF _ ret], intro impI)
    fix f dest src i m r
    assume IH: "\<And>dest src i m r. f dest src i m = Some r \<Longrightarrow> ?P dest src i m r"
      and eq: "(if ld_rom m (src + i) \<noteq> 0
        then f dest src (i + 1) (st_rom (dest + i) (ld_rom m (src + i)) m) else Some (i, m)) = Some r"
      and d: "dest = src + 1" and nz: "ld_rom m (src + i) \<noteq> 0"
    from eq nz have "f dest src (i + 1) (st_rom (dest + i) (ld_rom m (src + i)) m) = Some r" by simp
    from IH [OF this] d nz show False by (simp add: rom.ld_st add.assoc add.commute [of 1])
  qed
  then show False using assms by simp
qed

text \<open>
  Copying a non-empty string one byte up never returns: each store overwrites the byte
  read next, so the terminator is never seen.
\<close>

theorem strcpy_rom_overlap_never_returns:
  assumes "m src \<noteq> 0"
  shows "strcpy_rom (src + 1) src m = None"
proof (cases "strcpy_loop (src + 1) src 0 m")
  case None
  then show ?thesis by (simp add: strcpy_rom_def)
next
  case (Some r)
  from strcpy_loop_chases [OF this refl] assms show ?thesis by (simp add: ld_rom_def)
qed

section \<open>Witnesses\<close>

definition sample_rom :: rmem where
  "sample_rom a = (if a = 0x100 then 104 else if a = 0x101 then 105 else 0)"

theorem memcpy_rom_copies_witness:
  "snd (memcpy_rom 0x200 0x100 2 sample_rom) 0x201 = 105 \<and> snd (memcpy_rom 0x200 0x100 2 sample_rom) 0x202 = 0"
  using memcpy_rom_copies [of "0x200" "0x100" 2 sample_rom]
  by (simp add: sample_rom_def)

theorem strcpy_rom_copies_witness:
  "\<exists>m'. strcpy_rom 0x200 0x100 sample_rom = Some (0x200, m') \<and> m' 0x200 = 104 \<and> m' 0x201 = 105 \<and> m' 0x202 = 0"
proof -
  have "string_at sample_rom 0x100 2"
    by (auto simp: string_at_def sample_rom_def less_2_cases_iff)
  moreover have "apart 0x200 0x100 2" by (simp add: apart_def)
  ultimately obtain m' where "strcpy_rom 0x200 0x100 sample_rom = Some (0x200, m')"
    "\<forall>a. m' a = (if unat (a - 0x200) \<le> 2 then sample_rom (0x100 + (a - 0x200)) else sample_rom a)"
    using strcpy_rom_copies by blast
  then show ?thesis by (simp add: sample_rom_def)
qed

theorem strcpy_rom_overlap_never_returns_witness:
  "strcpy_rom 0x101 0x100 sample_rom = None"
  using strcpy_rom_overlap_never_returns [of sample_rom "0x100"] by (simp add: sample_rom_def)

end
