(* ===== verification/FsblImage.thy ===== *)
theory FsblImage
  imports Prelude
begin

text \<open>
  The search for a boot image of the first stage boot loader: \<open>ImageCheckID\<close>, \<open>HeaderChecksum\<close> and
  the loop of \<open>NextValidImageCheck\<close> (\<open>fsbl/main.c\<close>). The constants of the Xilinx headers are not
  part of the repository: they are the fields of \<open>fsbl_consts\<close>. \<open>MoveImage(addr, &var, 4)\<close> is the
  parameter \<open>rd\<close>: the value of \<open>var\<close> afterwards, given the address and the value before (a transfer
  that fails may leave it alone).
\<close>

record fsbl_consts =
  XST_SUCCESS :: u32
  XST_FAILURE :: u32
  IMAGE_HEADER_CHECKSUM_COUNT :: u32
  IMAGE_WIDTH_CHECK_OFFSET :: u32
  IMAGE_CHECKSUM_OFFSET :: u32
  IMAGE_IDENT_OFFSET :: u32
  IMAGE_IDENT :: u32
  GOLDEN_IMAGE_OFFSET :: u32
  PCAP_MBOOT_REG_REBOOT_OFFSET_MASK :: u32

section \<open>The header\<close>

text \<open>\<open>for (Count = 0; Count < IMAGE_HEADER_CHECKSUM_COUNT; Count++)\<close>; the state is \<open>(Checksum, TempValue)\<close>.\<close>

function checksum_loop :: "'a fsbl_consts_scheme \<Rightarrow> (u32 \<Rightarrow> u32 \<Rightarrow> u32) \<Rightarrow> u32 \<Rightarrow> u32 \<Rightarrow> u32 \<times> u32 \<Rightarrow> u32 \<times> u32" where
  "checksum_loop k rd off count (chk, temp) =
     (if count < IMAGE_HEADER_CHECKSUM_COUNT k then
        let temp = rd (off + IMAGE_WIDTH_CHECK_OFFSET k + count * 4) temp
        in checksum_loop k rd off (count + 1) (chk + temp, temp)
      else (chk, temp))"
  by pat_completeness auto

termination
proof (relation "measure (\<lambda>(k, _, _, count, _). unat (IMAGE_HEADER_CHECKSUM_COUNT k) - unat count)")
  fix k :: "'a fsbl_consts_scheme" and rd :: "u32 \<Rightarrow> u32 \<Rightarrow> u32" and off count chk temp x
  assume "count < IMAGE_HEADER_CHECKSUM_COUNT k"
  then show "((k, rd, off, count + 1, chk + x, x), k, rd, off, count, chk, temp)
      \<in> measure (\<lambda>(k, _, _, count, _). unat (IMAGE_HEADER_CHECKSUM_COUNT k) - unat count)"
    by (simp add: unat_plus_one word_less_nat_alt diff_less_mono2)
qed simp

declare checksum_loop.simps [simp del]

definition HeaderChecksum :: "'a fsbl_consts_scheme \<Rightarrow> (u32 \<Rightarrow> u32 \<Rightarrow> u32) \<Rightarrow> u32 \<Rightarrow> u32" where
  "HeaderChecksum k rd off =
     (let (chk, temp) = checksum_loop k rd off 0 (0, 0);
          chk = chk XOR 0xFFFFFFFF;
          temp = rd (off + IMAGE_CHECKSUM_OFFSET k) temp
      in if temp \<noteq> chk then XST_FAILURE k else XST_SUCCESS k)"

text \<open>\<open>ID\<close> is not initialised: \<open>junk\<close> is what it holds before the transfer.\<close>

definition ImageCheckID :: "'a fsbl_consts_scheme \<Rightarrow> (u32 \<Rightarrow> u32 \<Rightarrow> u32) \<Rightarrow> u32 \<Rightarrow> u32 \<Rightarrow> u32" where
  "ImageCheckID k rd junk off =
     (let ident = rd (off + IMAGE_IDENT_OFFSET k) junk
      in if ident \<noteq> IMAGE_IDENT k then XST_FAILURE k else XST_SUCCESS k)"

section \<open>The search\<close>

definition ImageBaseAddr :: "'a fsbl_consts_scheme \<Rightarrow> u32 \<Rightarrow> u32" where
  "ImageBaseAddr k MultiBootReg = (MultiBootReg AND PCAP_MBOOT_REG_REBOOT_OFFSET_MASK k) * GOLDEN_IMAGE_OFFSET k"

definition valid_image :: "'a fsbl_consts_scheme \<Rightarrow> (u32 \<Rightarrow> u32 \<Rightarrow> u32) \<Rightarrow> u32 \<Rightarrow> u32 \<Rightarrow> bool" where
  "valid_image k rd junk off \<longleftrightarrow> ImageCheckID k rd junk off = XST_SUCCESS k \<and> HeaderChecksum k rd off = XST_SUCCESS k"

text \<open>
  The loop from a value of \<open>MultiBootReg\<close>: \<open>Some (Some mb)\<close> when an image is found at \<open>mb\<close>,
  \<open>Some None\<close> at the end of the flash, \<open>None\<close> when the loop does not end.
\<close>

partial_function (option) image_search ::
    "'a fsbl_consts_scheme \<Rightarrow> (u32 \<Rightarrow> u32 \<Rightarrow> u32) \<Rightarrow> u32 \<Rightarrow> u32 \<Rightarrow> u32 \<Rightarrow> u32 option option" where
  "image_search k rd junk BootDevMaxSize MultiBootReg =
     (if ImageBaseAddr k MultiBootReg < BootDevMaxSize then
        if valid_image k rd junk (ImageBaseAddr k MultiBootReg) then Some (Some MultiBootReg)
        else image_search k rd junk BootDevMaxSize (MultiBootReg + 1)
      else Some None)"

section \<open>What the checks accept\<close>

text \<open>A flash that always answers: what a word holds does not depend on the variable.\<close>

definition reads_flash :: "(u32 \<Rightarrow> u32 \<Rightarrow> u32) \<Rightarrow> (u32 \<Rightarrow> u32) \<Rightarrow> bool" where
  "reads_flash rd flash \<longleftrightarrow> (\<forall>a old. rd a old = flash a)"

definition header_words :: "'a fsbl_consts_scheme \<Rightarrow> (u32 \<Rightarrow> u32) \<Rightarrow> u32 \<Rightarrow> u32 list" where
  "header_words k flash off =
     map (\<lambda>i. flash (off + IMAGE_WIDTH_CHECK_OFFSET k + of_nat i * 4)) [0..<unat (IMAGE_HEADER_CHECKSUM_COUNT k)]"

lemma checksum_loop_sum:
  assumes "reads_flash rd flash" "unat (IMAGE_HEADER_CHECKSUM_COUNT k) = i + n"
  shows "fst (checksum_loop k rd off (of_nat i) (chk, temp)) = chk +
    sum_list (map (\<lambda>i. flash (off + IMAGE_WIDTH_CHECK_OFFSET k + of_nat i * 4)) [i..<i + n])"
  using assms(2)
proof (induction n arbitrary: i chk temp)
  case 0
  then have "IMAGE_HEADER_CHECKSUM_COUNT k = of_nat i" by (metis add.right_neutral of_nat_unat ucast_id)
  then show ?case by (simp add: checksum_loop.simps [of _ _ _ "of_nat i"])
next
  case (Suc n)
  have "i < 2 ^ 32" using Suc.prems unat_less_exp [of "IMAGE_HEADER_CHECKSUM_COUNT k"] by simp
  then have "(of_nat i :: u32) < IMAGE_HEADER_CHECKSUM_COUNT k"
    using Suc.prems by (simp add: word_less_nat_alt unat_of_nat)
  moreover have "rd a old = flash a" for a old using assms(1) by (simp add: reads_flash_def)
  moreover have "[i..<i + Suc n] = i # [i + 1..<i + 1 + n]" by (simp add: upt_conv_Cons del: upt_Suc)
  ultimately show ?case
    using Suc.IH [of "i + 1"] Suc.prems
    by (simp add: checksum_loop.simps [of _ _ _ "of_nat i"] Let_def add.assoc del: upt_Suc)
       (simp add: add.commute [of 1])
qed

lemma HeaderChecksum_flash:
  assumes "reads_flash rd flash" "XST_SUCCESS k \<noteq> XST_FAILURE k"
  shows "HeaderChecksum k rd off = XST_SUCCESS k \<longleftrightarrow>
    flash (off + IMAGE_CHECKSUM_OFFSET k) = NOT (sum_list (header_words k flash off))"
proof -
  have x: "w XOR 0xFFFFFFFF = NOT w" for w :: u32
  proof -
    have "(0xFFFFFFFF :: u32) = - 1" by simp
    then show ?thesis by (simp only: bit.xor_one_right)
  qed
  have "rd a old = flash a" for a old using assms(1) by (simp add: reads_flash_def)
  moreover have "fst (checksum_loop k rd off 0 (0, 0)) = sum_list (header_words k flash off)"
    using checksum_loop_sum [OF assms(1), of k 0 _ off 0 0] by (simp add: header_words_def)
  ultimately show ?thesis
    using assms(2) x by (auto simp: HeaderChecksum_def Let_def split: prod.splits)
qed


text \<open>The checks read only the identification, the checksum and the header words.\<close>

definition header_addr :: "'a fsbl_consts_scheme \<Rightarrow> u32 \<Rightarrow> nat \<Rightarrow> u32" where
  "header_addr k off i = off + IMAGE_WIDTH_CHECK_OFFSET k + of_nat i * 4"

lemma header_words_addr:
  "header_words k flash off = map (\<lambda>i. flash (header_addr k off i)) [0..<unat (IMAGE_HEADER_CHECKSUM_COUNT k)]"
  by (simp add: header_words_def header_addr_def)

lemma header_addr_inj:
  assumes "header_addr k off i = header_addr k off j" "i < 2 ^ 30" "j < 2 ^ 30"
  shows "i = j"
proof -
  have "(of_nat i * 4 :: u32) = of_nat j * 4" using assms(1) by (simp add: header_addr_def)
  then have "unat (of_nat i * 4 :: u32) = unat (of_nat j * 4 :: u32)" by simp
  with assms(2,3) show ?thesis by (simp add: unat_word_ariths unat_of_nat)
qed

lemma sum_list_update_group:
  fixes xs :: "'b::ab_group_add list"
  assumes "i < length xs"
  shows "sum_list (xs[i := v]) = sum_list xs + (v - xs ! i)"
  using assms by (induction xs arbitrary: i) (auto simp: add.assoc split: nat.splits)

text \<open>
  C26: \<open>HeaderChecksum\<close> rejects every header that differs from an accepted one in exactly one
  of the words it sums, wherever the word is.
\<close>

theorem corrupt_header_rejected:
  assumes "reads_flash rd flash" "reads_flash rd' (flash(header_addr k off i := v))"
    and "XST_SUCCESS k \<noteq> XST_FAILURE k" "unat (IMAGE_HEADER_CHECKSUM_COUNT k) \<le> 2 ^ 30"
    and "\<And>j. j < unat (IMAGE_HEADER_CHECKSUM_COUNT k) \<Longrightarrow> header_addr k off j \<noteq> off + IMAGE_CHECKSUM_OFFSET k"
    and "HeaderChecksum k rd off = XST_SUCCESS k"
    and i: "i < unat (IMAGE_HEADER_CHECKSUM_COUNT k)" and v: "v \<noteq> flash (header_addr k off i)"
  shows "HeaderChecksum k rd' off = XST_FAILURE k"
proof -
  let ?ws = "header_words k flash off" and ?flash = "flash(header_addr k off i := v)"
  have ws: "header_words k ?flash off = ?ws[i := v]"
  proof (rule nth_equalityI)
    fix j
    assume "j < length (header_words k ?flash off)"
    then have j: "j < unat (IMAGE_HEADER_CHECKSUM_COUNT k)" by (simp add: header_words_addr)
    with header_addr_inj [of k off j i] assms(4) i show "header_words k ?flash off ! j = ?ws[i := v] ! j"
      by (cases "j = i") (auto simp: header_words_addr)
  qed (simp add: header_words_addr)
  have "sum_list (?ws[i := v]) = sum_list ?ws + (v - flash (header_addr k off i))"
    using i by (subst sum_list_update_group) (simp_all add: header_words_addr)
  with v have "sum_list (?ws[i := v]) \<noteq> sum_list ?ws" by simp
  moreover have "flash (off + IMAGE_CHECKSUM_OFFSET k) = NOT (sum_list ?ws)"
    using HeaderChecksum_flash [OF assms(1,3)] assms(6) by blast
  moreover have "?flash (off + IMAGE_CHECKSUM_OFFSET k) = flash (off + IMAGE_CHECKSUM_OFFSET k)"
    using assms(5) [OF i] by simp
  ultimately have "HeaderChecksum k rd' off \<noteq> XST_SUCCESS k"
    unfolding HeaderChecksum_flash [OF assms(2,3)] ws by simp
  then show ?thesis by (auto simp: HeaderChecksum_def Let_def split: prod.splits if_splits)
qed

section \<open>What the search finds\<close>

text \<open>The offset field of the multiboot register has \<open>m\<close> bits, and every offset fits in 32 bits.\<close>

definition offset_field :: "'a fsbl_consts_scheme \<Rightarrow> nat \<Rightarrow> bool" where
  "offset_field k m \<longleftrightarrow> m \<le> 32 \<and> PCAP_MBOOT_REG_REBOOT_OFFSET_MASK k = mask m
     \<and> 0 < unat (GOLDEN_IMAGE_OFFSET k) \<and> 2 ^ m * unat (GOLDEN_IMAGE_OFFSET k) \<le> 2 ^ 32"

definition field :: "nat \<Rightarrow> u32 \<Rightarrow> nat" where
  "field m mb = unat mb mod 2 ^ m"

lemma ImageBaseAddr_field:
  assumes "offset_field k m"
  shows "unat (ImageBaseAddr k mb) = field m mb * unat (GOLDEN_IMAGE_OFFSET k)"
    "ImageBaseAddr k mb = of_nat (field m mb * unat (GOLDEN_IMAGE_OFFSET k))"
proof -
  let ?g = "unat (GOLDEN_IMAGE_OFFSET k)"
  have "unat (mb AND mask m) = take_bit m (unat mb)"
    by (simp only: take_bit_eq_mask [symmetric] unsigned_take_bit_eq)
  then have f: "unat (mb AND mask m) = field m mb" by (simp only: field_def take_bit_eq_mod)
  have "field m mb < 2 ^ m" by (simp add: field_def)
  then have "field m mb * ?g < 2 ^ m * ?g" using assms by (simp add: offset_field_def)
  moreover have "2 ^ m * ?g \<le> 2 ^ 32" using assms by (simp add: offset_field_def)
  ultimately have lt: "field m mb * ?g < 2 ^ 32" by (rule order_less_le_trans)
  have "unat (ImageBaseAddr k mb) = field m mb * ?g mod 2 ^ 32"
    using assms f by (simp add: ImageBaseAddr_def offset_field_def unat_word_ariths)
  with lt show u: "unat (ImageBaseAddr k mb) = field m mb * ?g" by simp
  show "ImageBaseAddr k mb = of_nat (field m mb * ?g)"
    unfolding u [symmetric] by simp
qed

lemma field_Suc:
  assumes "m \<le> 32" "Suc (field m mb) < 2 ^ m"
  shows "field m (mb + 1) = Suc (field m mb)"
proof -
  have "(2 :: nat) ^ m dvd 2 ^ 32" using assms(1) by (rule le_imp_power_dvd)
  then have "field m (mb + 1) = (unat mb + 1) mod 2 ^ m"
    by (simp add: field_def unat_word_ariths mod_mod_cancel)
  also have "\<dots> = (field m mb + 1) mod 2 ^ m" by (simp add: field_def mod_Suc_eq)
  finally show ?thesis using assms(2) by simp
qed

text \<open>The number of places an image can start at in a flash of the given size.\<close>

definition places :: "'a fsbl_consts_scheme \<Rightarrow> u32 \<Rightarrow> nat" where
  "places k flashsz = (unat flashsz + unat (GOLDEN_IMAGE_OFFSET k) - 1) div unat (GOLDEN_IMAGE_OFFSET k)"

lemma less_places:
  assumes "0 < unat (GOLDEN_IMAGE_OFFSET k)"
  shows "n * unat (GOLDEN_IMAGE_OFFSET k) < unat flashsz \<longleftrightarrow> n < places k flashsz"
proof -
  let ?g = "unat (GOLDEN_IMAGE_OFFSET k)"
  have "n < places k flashsz \<longleftrightarrow> Suc n \<le> places k flashsz" by auto
  also have "\<dots> \<longleftrightarrow> Suc n * ?g \<le> unat flashsz + ?g - 1"
    unfolding places_def using assms by (rule less_eq_div_iff_mult_less_eq)
  also have "\<dots> \<longleftrightarrow> n * ?g < unat flashsz" using assms by auto
  finally show ?thesis by simp
qed

lemma image_search_finds_first:
  assumes "offset_field k m" "unat BootDevMaxSize \<le> (2 ^ m - 1) * unat (GOLDEN_IMAGE_OFFSET k)"
  shows "image_search k rd junk BootDevMaxSize mb = Some (map_option (\<lambda>n. mb + of_nat (n - field m mb))
    (find (\<lambda>n. valid_image k rd junk (of_nat (n * unat (GOLDEN_IMAGE_OFFSET k))))
      [field m mb..<places k BootDevMaxSize]))"
proof (induction "places k BootDevMaxSize - field m mb" arbitrary: mb)
  case 0
  have g: "0 < unat (GOLDEN_IMAGE_OFFSET k)" using assms(1) by (simp add: offset_field_def)
  from 0 have "\<not> field m mb < places k BootDevMaxSize" by simp
  with less_places [OF g] show ?case
    by (simp add: image_search.simps [of _ _ _ _ mb] word_less_nat_alt ImageBaseAddr_field(1) [OF assms(1)])
next
  case (Suc d)
  let ?g = "unat (GOLDEN_IMAGE_OFFSET k)" and ?N = "places k BootDevMaxSize" and ?r = "field m mb"
  have g: "0 < ?g" and m: "m \<le> 32" using assms(1) by (simp_all add: offset_field_def)
  from Suc(2) have r: "?r < ?N" by simp
  have inside: "ImageBaseAddr k mb < BootDevMaxSize"
    using less_places [OF g] r by (simp add: word_less_nat_alt ImageBaseAddr_field(1) [OF assms(1)])
  have "?r * ?g < (2 ^ m - 1) * ?g" using less_places [OF g] r assms(2) by (meson order_less_le_trans)
  then have "?r < 2 ^ m - 1" by simp
  then have "Suc ?r < 2 ^ m" by linarith
  from field_Suc [OF m this] have f: "field m (mb + 1) = Suc ?r" .
  show ?case
  proof (cases "valid_image k rd junk (ImageBaseAddr k mb)")
    case True
    with inside r show ?thesis
      by (simp add: image_search.simps [of _ _ _ _ mb] upt_conv_Cons ImageBaseAddr_field(2) [OF assms(1)])
  next
    case False
    have "image_search k rd junk BootDevMaxSize mb = image_search k rd junk BootDevMaxSize (mb + 1)"
      using inside False by (simp add: image_search.simps [of _ _ _ _ mb])
    also have "\<dots> = Some (map_option (\<lambda>n. mb + 1 + of_nat (n - Suc ?r))
        (find (\<lambda>n. valid_image k rd junk (of_nat (n * ?g))) [Suc ?r..<?N]))"
      using Suc(1) [of "mb + 1"] Suc(2) f by simp
    also have "\<dots> = Some (map_option (\<lambda>n. mb + of_nat (n - ?r))
        (find (\<lambda>n. valid_image k rd junk (of_nat (n * ?g))) [Suc ?r..<?N]))"
    proof -
      have "mb + 1 + of_nat (n - Suc ?r) = mb + of_nat (n - ?r)" if "Suc ?r \<le> n" for n
        using that by (simp add: of_nat_diff algebra_simps)
      moreover have "Suc ?r \<le> n"
        if "find (\<lambda>n. valid_image k rd junk (of_nat (n * ?g))) [Suc ?r..<?N] = Some n" for n
        using that unfolding find_Some_iff by auto
      ultimately show ?thesis
        by (cases "find (\<lambda>n. valid_image k rd junk (of_nat (n * ?g))) [Suc ?r..<?N]")
           (simp_all del: of_nat_mult)
    qed
    also have "find (\<lambda>n. valid_image k rd junk (of_nat (n * ?g))) [Suc ?r..<?N] =
        find (\<lambda>n. valid_image k rd junk (of_nat (n * ?g))) [?r..<?N]"
      using False r by (simp add: upt_conv_Cons ImageBaseAddr_field(2) [OF assms(1)])
    finally show ?thesis .
  qed
qed


lemma image_search_diverges:
  assumes ret: "image_search k rd junk BootDevMaxSize mb = Some r"
    and "\<And>w. ImageBaseAddr k w < BootDevMaxSize" "\<And>w. \<not> valid_image k rd junk (ImageBaseAddr k w)"
  shows False
proof -
  let ?P = "\<lambda>k0 rd0 junk0 size0 (mb0 :: u32) (r0 :: u32 option).
    k0 = k \<longrightarrow> rd0 = rd \<longrightarrow> junk0 = junk \<longrightarrow> size0 = BootDevMaxSize \<longrightarrow> False"
  have "?P k rd junk BootDevMaxSize mb r"
  proof (rule image_search.raw_induct [where P = ?P, OF _ ret], intro impI)
    fix f k0 rd0 junk0 size0 mb0 r0
    assume IH: "\<And>k0 rd0 junk0 size0 mb0 r0. f k0 rd0 junk0 size0 mb0 = Some r0 \<Longrightarrow> ?P k0 rd0 junk0 size0 mb0 r0"
      and eq: "(if ImageBaseAddr k0 mb0 < size0 then
          if valid_image k0 rd0 junk0 (ImageBaseAddr k0 mb0) then Some (Some mb0)
          else f k0 rd0 junk0 size0 (mb0 + 1) else Some None) = Some r0"
      and fixed: "k0 = k" "rd0 = rd" "junk0 = junk" "size0 = BootDevMaxSize"
    from eq fixed assms(2,3) have "f k rd junk BootDevMaxSize (mb0 + 1) = Some r0" by simp
    with IH [of k rd junk BootDevMaxSize "mb0 + 1" r0] show False by simp
  qed
  then show False by simp
qed

lemma image_search_never_ends:
  assumes "offset_field k m" "(2 ^ m - 1) * unat (GOLDEN_IMAGE_OFFSET k) < unat BootDevMaxSize"
    and "\<And>w. \<not> valid_image k rd junk (ImageBaseAddr k w)"
  shows "image_search k rd junk BootDevMaxSize mb = None"
proof (rule ccontr)
  assume "image_search k rd junk BootDevMaxSize mb \<noteq> None"
  then obtain r where r: "image_search k rd junk BootDevMaxSize mb = Some r" by blast
  have "ImageBaseAddr k w < BootDevMaxSize" for w
  proof -
    have "field m w < 2 ^ m" by (simp add: field_def)
    then have "field m w \<le> 2 ^ m - 1" by linarith
    then have "field m w * unat (GOLDEN_IMAGE_OFFSET k) \<le> (2 ^ m - 1) * unat (GOLDEN_IMAGE_OFFSET k)"
      by (rule mult_le_mono1)
    with assms(2) show ?thesis
      unfolding word_less_nat_alt ImageBaseAddr_field(1) [OF assms(1)] by linarith
  qed
  from image_search_diverges [OF r this assms(3)] show False .
qed

section \<open>Witnesses\<close>

text \<open>A 16-bit layout like that of the Zynq boot header, with a valid image at offset \<open>0x10000\<close>.\<close>

definition sample_consts :: fsbl_consts where
  "sample_consts = \<lparr>XST_SUCCESS = 0, XST_FAILURE = 1, IMAGE_HEADER_CHECKSUM_COUNT = 10,
     IMAGE_WIDTH_CHECK_OFFSET = 0x20, IMAGE_CHECKSUM_OFFSET = 0x48, IMAGE_IDENT_OFFSET = 0x24,
     IMAGE_IDENT = 0x584C4E58, GOLDEN_IMAGE_OFFSET = 0x8000, PCAP_MBOOT_REG_REBOOT_OFFSET_MASK = 0x1FFF\<rparr>"

definition sample_flash :: "u32 \<Rightarrow> u32" where
  "sample_flash a = (if a = 0x10024 then 0x584C4E58 else if a = 0x10048 then 0xA7B3B1A7 else 0)"

lemma sample_offset_field: "offset_field sample_consts 13"
proof -
  have "(mask 13 :: u32) = 0x1FFF" by (simp add: mask_eq_exp_minus_1)
  then show ?thesis by (simp add: offset_field_def sample_consts_def)
qed

text \<open>With four places in the flash, the search from offset 1 finds the image at offset 2.\<close>

lemma sample_places: "[field 13 1..<places sample_consts 0x20000] = [1, 2, 3]"
  by (simp add: places_def sample_consts_def field_def upt_conv_Cons)

lemma sample_valid:
  "\<not> valid_image sample_consts (\<lambda>a _. sample_flash a) 0 0x8000"
  "valid_image sample_consts (\<lambda>a _. sample_flash a) 0 0x10000"
  by (simp_all add: valid_image_def ImageCheckID_def HeaderChecksum_def checksum_loop.simps
      sample_consts_def sample_flash_def Let_def)

lemma sample_search: "image_search sample_consts (\<lambda>a _. sample_flash a) 0 0x20000 1 = Some (Some 2)"
  using image_search_finds_first [OF sample_offset_field, of "0x20000" "\<lambda>a _. sample_flash a" 0 1] sample_valid
  unfolding sample_places by (simp add: sample_consts_def field_def)

lemma sample_search_never_ends:
  "image_search sample_consts (\<lambda>a _. 0) 0 0x10000000 5 = None"
proof -
  have "\<not> valid_image sample_consts (\<lambda>a _. 0) 0 off" for off
    by (simp add: valid_image_def ImageCheckID_def sample_consts_def)
  then show ?thesis
    using image_search_never_ends [OF sample_offset_field, of "0x10000000" "\<lambda>a _. 0" 0 5]
    by (simp add: sample_consts_def)
qed

theorem corrupt_header_rejected_witness:
  "HeaderChecksum sample_consts (\<lambda>a _. (sample_flash(0x10028 := 1)) a) 0x10000 = 1"
proof -
  have "header_addr sample_consts 0x10000 2 = 0x10028"
    by (simp add: header_addr_def sample_consts_def)
  moreover have "header_addr sample_consts 0x10000 j \<noteq> 0x10048" if "j < 10" for j
  proof -
    have "j \<in> {0, 1, 2, 3, 4, 5, 6, 7, 8, 9}" using that by auto
    then show ?thesis by (auto simp: header_addr_def sample_consts_def)
  qed
  moreover have "HeaderChecksum sample_consts (\<lambda>a _. sample_flash a) 0x10000 = XST_SUCCESS sample_consts"
    by (simp add: HeaderChecksum_def checksum_loop.simps sample_consts_def sample_flash_def Let_def)
  ultimately show ?thesis
    using corrupt_header_rejected [of "\<lambda>a _. sample_flash a" sample_flash
        "\<lambda>a _. (sample_flash(0x10028 := 1)) a" sample_consts "0x10000" 2 1]
    by (simp add: reads_flash_def) (simp add: sample_consts_def sample_flash_def)
qed

end
