(* ===== verification/FsblBase.thy ===== *)
theory FsblBase
  imports FsblImage
begin

text \<open>
  The machine of the first stage boot loader: its global variables, the history of what it did to
  the outside, and operations that may return, stop inside a call that never returns, or run
  forever. Everything \<open>fsbl/main.c\<close> uses and does not define is a parameter: the constants of
  the headers and the build options are the fields of \<open>config\<close>, the answers of the hardware and of
  the other files are those of \<open>env\<close>, as functions of the history. Debug output (\<open>fsbl_printf\<close>) is
  left out.
\<close>

section \<open>State\<close>

datatype mover = QspiAccess | NandAccess | NorAccess | SDAccess

record globals =
  FlashReadBaseAddress :: u32
  Silicon_Version :: u32
  LinearBootDeviceFlag :: u8
  PcapCtrlRegVal :: u32
  SystemInitFlag :: u8
  MoveImage :: "mover option"
  BitstreamFlag :: u8
  QspiFlashSize :: u32

datatype handler = Undef_Handler | SVC_Handler | PreFetch_Abort_Handler | Data_Abort_Handler
  | IRQ_Handler | FIQ_Handler

datatype status_code = PS7_INIT_FAIL | DDR_INIT_FAIL | PCAP_INIT_FAIL | WDT_INIT_FAIL | NAND_INIT_FAIL
  | SD_INIT_FAIL | ILLEGAL_BOOT_MODE | INVALID_FLASH_ADDRESS | FSBL_HANDOFF_HOOK_FAIL
  | SUCCESSFUL_HANDOFF | ILLEGAL_RETURN | NO_DDR | EXCEPTION_ID handler

datatype wdt_value = XWDTPS_CLK_PRESCALE | XWDTPS_COUNTER_RESET

datatype call =
    ps7_init | ps7_post_config | SlcrUnlock | SlcrLock
  | XTime_GetTime | Xil_DCacheFlush | Xil_DCacheDisable
  | Xil_ExceptionInit | Xil_ExceptionRegisterHandler handler | Xil_ExceptionEnable
  | dsb_isb
  | InitPcap | XDcfg_GetPsVersion | XDcfg_GetControlRegister | FabricInit | SetPpk
  | XWdtPs_LookupConfig | XWdtPs_CfgInitialize | XWdtPs_SetControlValue wdt_value u32 | XWdtPs_GetControlValue wdt_value
  | XWdtPs_EnableOutput | XWdtPs_Start | XWdtPs_RestartWdt | XWdtPs_Stop
  | InitQspi | InitNand | InitNor | InitSD string
  | LoadBootImage | FsblHookFallback | FsblHookBeforeHandoff
  | FsblHandoffJtagExit | FsblHandoffExit u32

text \<open>
  What happened, the latest event first: a register read with the value read, a register write,
  a call that returned with its value, a call that never returned, a status report.
\<close>

datatype event = Read u32 u32 | Write u32 u32 | Call call u32 | NoReturn call | Report status_code

type_synonym history = "event list"

record fsbl =
  gl :: globals
  hist :: history

section \<open>Parameters\<close>

record config = fsbl_consts +
  BOOT_MODE_REG :: u32
  BOOT_MODES_MASK :: u32
  QSPI_MODE :: u32
  NAND_FLASH_MODE :: u32
  NOR_FLASH_MODE :: u32
  SD_MODE :: u32
  MMC_MODE :: u32
  JTAG_MODE :: u32
  REBOOT_STATUS_REG :: u32
  FSBL_FAIL_MASK :: u32
  FSBL_IN_MASK :: u32
  RESET_REASON_REG :: u32
  RESET_REASON_SWDT :: u32
  RESET_REASON_CLR :: u32
  PS_RST_CTRL_REG :: u32
  PS_RST_MASK :: u32
  PS_LVL_SHFTR_EN :: u32
  LVL_PL_PS :: u32
  FPGA_RESET_REG :: u32
  DcfgBaseAddr :: u32
  XDCFG_MULTIBOOT_ADDR_OFFSET :: u32
  XDCFG_CTRL_PCFG_AES_FUSE_MASK :: u32
  XDCFG_INT_STS_OFFSET :: u32
  XDCFG_IXR_PCFG_DONE_MASK :: u32
  XPS_DEV_CFG_APB_BASEADDR :: u32
  SILICON_VERSION_1 :: u32
  STDOUT_BASEADDRESS :: u32
  XUARTPS_SR_OFFSET :: u32
  XUARTPS_SR_TXEMPTY :: u32
  FSBL_PS7_INIT_SUCCESS :: u32
  DDR_START_ADDR :: u32
  DDR_TEST_OFFSET :: u32
  DDR_TEST_PATTERN :: u32
  XPS_QSPI_LINEAR_BASEADDR :: u32
  XPS_NAND_BASEADDR :: u32
  XPS_NOR_BASEADDR :: u32
  XPS_SDIO0_BASEADDR :: u32
  NAND_FLASH_SIZE :: u32
  NOR_FLASH_SIZE :: u32
  XWDTPS_CCR_PSCALE_0008 :: u32
  XWDTPS_CCR_PSCALE_0064 :: u32
  XWDTPS_CCR_PSCALE_4096 :: u32
  WDT_CLK_FREQ :: u32
  has_ddr :: bool
  has_wdt :: bool
  has_qspi :: bool
  has_nand :: bool
  has_sd :: bool
  has_stdout :: bool
  has_uart :: bool
  mmc_support :: bool
  rsa_support :: bool
  post_config :: bool
  non_ps_bitstream :: bool
  FSBL_PERF :: bool

text \<open>
  \<open>resets a v h\<close>: writing \<open>v\<close> at \<open>a\<close> resets the processing system, so the write does not return.
  \<open>answer c h\<close> is the value of a call (0 for \<open>void\<close>), \<open>None\<close> when it never returns; \<open>effect\<close> is what
  it does to the global variables. \<open>moved m h addr old\<close>: the word \<open>MoveImage(addr, &var, 4)\<close> leaves
  in a variable that held \<open>old\<close>. \<open>junk\<close>: what an uninitialised variable holds.
\<close>

record env =
  reads :: "u32 \<Rightarrow> history \<Rightarrow> u32"
  resets :: "u32 \<Rightarrow> u32 \<Rightarrow> history \<Rightarrow> bool"
  answer :: "call \<Rightarrow> history \<Rightarrow> u32 option"
  effect :: "call \<Rightarrow> history \<Rightarrow> globals \<Rightarrow> globals"
  moved :: "mover option \<Rightarrow> history \<Rightarrow> u32 \<Rightarrow> u32 \<Rightarrow> u32"
  junk :: u32

section \<open>Operations\<close>

text \<open>\<open>None\<close>: a loop that never ends. \<open>Stop\<close>: control was lost inside a call or by a reset.\<close>

datatype 'a result = Ret 'a fsbl | Stop fsbl

type_synonym 'a op = "fsbl \<Rightarrow> 'a result option"

definition ret :: "'a \<Rightarrow> 'a op" where
  "ret v s = Some (Ret v s)"

definition bind :: "'a op \<Rightarrow> ('a \<Rightarrow> 'b op) \<Rightarrow> 'b op" where
  "bind m f s =
     (case m s of
        None \<Rightarrow> None
      | Some (Stop t) \<Rightarrow> Some (Stop t)
      | Some (Ret v t) \<Rightarrow> f v t)"

definition andThen :: "'a op \<Rightarrow> 'b op \<Rightarrow> 'b op" where
  "andThen m m' = bind m (\<lambda>_. m')"

definition whenever :: "bool \<Rightarrow> 'a op \<Rightarrow> unit op" where
  "whenever b m = (if b then bind m (\<lambda>_. ret ()) else ret ())"

fun steps :: "unit op list \<Rightarrow> unit op" where
  "steps [] = ret ()"
| "steps (m # ms) = andThen m (steps ms)"

definition get :: "(globals \<Rightarrow> 'a) \<Rightarrow> 'a op" where
  "get f s = Some (Ret (f (gl s)) s)"

definition set_gl :: "(globals \<Rightarrow> globals) \<Rightarrow> unit op" where
  "set_gl f s = Some (Ret () (s\<lparr>gl := f (gl s)\<rparr>))"

definition record_event :: "event \<Rightarrow> fsbl \<Rightarrow> fsbl" where
  "record_event e s = s\<lparr>hist := e # hist s\<rparr>"

text \<open>One register read, and \<open>Xil_In32\<close>, \<open>Xil_Out32\<close> and any other call.\<close>

definition read_reg :: "env \<Rightarrow> u32 \<Rightarrow> fsbl \<Rightarrow> u32 \<times> fsbl" where
  "read_reg E a s = (let v = reads E a (hist s) in (v, record_event (Read a v) s))"

definition Xil_In32 :: "env \<Rightarrow> u32 \<Rightarrow> u32 op" where
  "Xil_In32 E a s = (case read_reg E a s of (v, t) \<Rightarrow> Some (Ret v t))"

definition Xil_Out32 :: "env \<Rightarrow> u32 \<Rightarrow> u32 \<Rightarrow> unit op" where
  "Xil_Out32 E a v s =
     (let t = record_event (Write a v) s
      in if resets E a v (hist s) then Some (Stop t) else Some (Ret () t))"

definition ext :: "env \<Rightarrow> call \<Rightarrow> u32 op" where
  "ext E c s =
     (case answer E c (hist s) of
        None \<Rightarrow> Some (Stop (record_event (NoReturn c) s))
      | Some v \<Rightarrow> Some (Ret v (record_event (Call c v) (s\<lparr>gl := effect E c (hist s) (gl s)\<rparr>))))"

definition invoke :: "env \<Rightarrow> call \<Rightarrow> unit op" where
  "invoke E c = bind (ext E c) (\<lambda>_. ret ())"

section \<open>Weakest preconditions\<close>

text \<open>
  \<open>wp\<close> is total: the operation ends, with \<open>Q\<close> if it returns and \<open>R\<close> if it stops. \<open>wlp\<close> also allows a
  loop that never ends.
\<close>

definition wp :: "'a op \<Rightarrow> ('a \<Rightarrow> fsbl \<Rightarrow> bool) \<Rightarrow> (fsbl \<Rightarrow> bool) \<Rightarrow> fsbl \<Rightarrow> bool" where
  "wp m Q R s = (case m s of None \<Rightarrow> False | Some (Ret v t) \<Rightarrow> Q v t | Some (Stop t) \<Rightarrow> R t)"

definition wlp :: "'a op \<Rightarrow> ('a \<Rightarrow> fsbl \<Rightarrow> bool) \<Rightarrow> (fsbl \<Rightarrow> bool) \<Rightarrow> fsbl \<Rightarrow> bool" where
  "wlp m Q R s = (m s = None \<or> wp m Q R s)"

lemma wp_ret [wp_simps]: "wp (ret v) Q R = Q v" "wlp (ret v) Q R = Q v"
  by (simp_all add: wp_def wlp_def ret_def fun_eq_iff)

lemma wp_bind [wp_simps]:
  "wp (bind m f) Q R s = wp m (\<lambda>v. wp (f v) Q R) R s"
  "wlp (bind m f) Q R s = wlp m (\<lambda>v. wlp (f v) Q R) R s"
  by (auto simp: wp_def wlp_def bind_def split: option.splits result.splits)

lemma wp_andThen [wp_simps]:
  "wp (andThen m m') Q R s = wp m (\<lambda>_. wp m' Q R) R s"
  "wlp (andThen m m') Q R s = wlp m (\<lambda>_. wlp m' Q R) R s"
  by (simp_all add: andThen_def wp_bind)

lemma wp_if [wp_simps]:
  "wp (if b then m else m') Q R s = (if b then wp m Q R s else wp m' Q R s)"
  "wlp (if b then m else m') Q R s = (if b then wlp m Q R s else wlp m' Q R s)"
  by simp_all

lemma wp_whenever [wp_simps]:
  "wp (whenever b m) Q R s = (if b then wp m (\<lambda>_. Q ()) R s else Q () s)"
  "wlp (whenever b m) Q R s = (if b then wlp m (\<lambda>_. Q ()) R s else Q () s)"
  by (simp_all add: whenever_def wp_ret wp_bind)

lemma wp_steps [wp_simps]:
  "wp (steps []) Q R s = Q () s" "wp (steps (m # ms)) Q R s = wp m (\<lambda>_. wp (steps ms) Q R) R s"
  "wlp (steps []) Q R s = Q () s" "wlp (steps (m # ms)) Q R s = wlp m (\<lambda>_. wlp (steps ms) Q R) R s"
  by (simp_all add: wp_ret wp_andThen)

declare steps.simps(2) [simp del]

lemma wp_get [wp_simps]: "wp (get f) Q R s = Q (f (gl s)) s" "wlp (get f) Q R s = Q (f (gl s)) s"
  by (simp_all add: wp_def wlp_def get_def)

lemma wp_set_gl [wp_simps]:
  "wp (set_gl f) Q R s = Q () (s\<lparr>gl := f (gl s)\<rparr>)" "wlp (set_gl f) Q R s = Q () (s\<lparr>gl := f (gl s)\<rparr>)"
  by (simp_all add: wp_def wlp_def set_gl_def)

lemma wp_In32 [wp_simps]:
  "wp (Xil_In32 E a) Q R s = Q (reads E a (hist s)) (record_event (Read a (reads E a (hist s))) s)"
  "wlp (Xil_In32 E a) Q R s = Q (reads E a (hist s)) (record_event (Read a (reads E a (hist s))) s)"
  by (simp_all add: wp_def wlp_def Xil_In32_def read_reg_def Let_def)

lemma wp_Out32 [wp_simps]:
  "wp (Xil_Out32 E a v) Q R s =
     (if resets E a v (hist s) then R (record_event (Write a v) s) else Q () (record_event (Write a v) s))"
  "wlp (Xil_Out32 E a v) Q R s =
     (if resets E a v (hist s) then R (record_event (Write a v) s) else Q () (record_event (Write a v) s))"
  by (simp_all add: wp_def wlp_def Xil_Out32_def Let_def)

lemma wp_ext [wp_simps]:
  "wp (ext E c) Q R s = (case answer E c (hist s) of
      None \<Rightarrow> R (record_event (NoReturn c) s)
    | Some v \<Rightarrow> Q v (record_event (Call c v) (s\<lparr>gl := effect E c (hist s) (gl s)\<rparr>)))"
  "wlp (ext E c) Q R s = (case answer E c (hist s) of
      None \<Rightarrow> R (record_event (NoReturn c) s)
    | Some v \<Rightarrow> Q v (record_event (Call c v) (s\<lparr>gl := effect E c (hist s) (gl s)\<rparr>)))"
  by (simp_all add: wp_def wlp_def ext_def split: option.splits)

lemma wp_call [wp_simps]:
  "wp (invoke E c) Q R s = wp (ext E c) (\<lambda>_. Q ()) R s"
  "wlp (invoke E c) Q R s = wlp (ext E c) (\<lambda>_. Q ()) R s"
  by (simp_all add: invoke_def wp_bind wp_ret)

lemma wlp_mono:
  assumes "wlp m Q R s" "\<And>v t. Q v t \<Longrightarrow> Q' v t" "\<And>t. R t \<Longrightarrow> R' t"
  shows "wlp m Q' R' s"
  using assms by (auto simp: wlp_def wp_def split: option.splits result.splits)

lemma wp_mono:
  assumes "wp m Q R s" "\<And>v t. Q v t \<Longrightarrow> Q' v t" "\<And>t. R t \<Longrightarrow> R' t"
  shows "wp m Q' R' s"
  using assms by (auto simp: wp_def split: option.splits result.splits)

text \<open>Sequences, with an intermediate condition.\<close>

lemma wp_bindI:
  assumes "wp m P R s" "\<And>v t. P v t \<Longrightarrow> wp (f v) Q R t"
  shows "wp (bind m f) Q R s"
  unfolding wp_bind using assms by (rule wp_mono)

lemma wp_andThenI:
  assumes "wp m P R s" "\<And>v t. P v t \<Longrightarrow> wp m' Q R t"
  shows "wp (andThen m m') Q R s"
  unfolding andThen_def using assms by (rule wp_bindI)

lemma wp_imp_wlp: "wp m Q R s \<Longrightarrow> wlp m Q R s"
  by (simp add: wlp_def)

lemma record_event_simps [simp]:
  "hist (record_event e s) = e # hist s" "gl (record_event e s) = gl s"
  by (simp_all add: record_event_def)

end
