(* ===== verification/FsblBoot.thy ===== *)
theory FsblBoot
  imports FsblBase
begin

text \<open>
  The functions of \<open>fsbl/main.c\<close> that decide where control goes, one definition per function and
  \<open>main\<close> in stages, in the order of the file. \<open>FsblFallback\<close> and \<open>FsblHandoff\<close> call each other:
  their first argument bounds the depth of these calls. The arithmetic of \<open>double\<close> is a parameter.
\<close>

section \<open>Registers and status\<close>

definition emit :: "event \<Rightarrow> unit op" where
  "emit e s = Some (Ret () (record_event e s))"

definition uart_drain :: "env \<Rightarrow> config \<Rightarrow> unit op" where
  "uart_drain E C s =
     map_option (\<lambda>(_, t). Ret () t)
       (spin (read_reg E (STDOUT_BASEADDRESS C + XUARTPS_SR_OFFSET C))
          (\<lambda>UartReg. UartReg AND XUARTPS_SR_TXEMPTY C = XUARTPS_SR_TXEMPTY C) s)"

definition OutputStatus :: "env \<Rightarrow> config \<Rightarrow> status_code \<Rightarrow> unit op" where
  "OutputStatus E C State =
     whenever (has_stdout C) (steps [emit (Report State), whenever (has_uart C) (uart_drain E C)])"

definition MarkFSBLIn :: "env \<Rightarrow> config \<Rightarrow> unit op" where
  "MarkFSBLIn E C =
     bind (Xil_In32 E (REBOOT_STATUS_REG C)) (\<lambda>v.
     Xil_Out32 E (REBOOT_STATUS_REG C) (v OR FSBL_IN_MASK C))"

definition ClearFSBLIn :: "env \<Rightarrow> config \<Rightarrow> unit op" where
  "ClearFSBLIn E C =
     bind (Xil_In32 E (REBOOT_STATUS_REG C)) (\<lambda>v.
     Xil_Out32 E (REBOOT_STATUS_REG C) (v AND NOT (FSBL_FAIL_MASK C)))"

definition RegisterHandlers :: "env \<Rightarrow> unit op" where
  "RegisterHandlers E = steps
     [invoke E Xil_ExceptionInit,
      invoke E (Xil_ExceptionRegisterHandler Undef_Handler),
      invoke E (Xil_ExceptionRegisterHandler SVC_Handler),
      invoke E (Xil_ExceptionRegisterHandler PreFetch_Abort_Handler),
      invoke E (Xil_ExceptionRegisterHandler Data_Abort_Handler),
      invoke E (Xil_ExceptionRegisterHandler IRQ_Handler),
      invoke E (Xil_ExceptionRegisterHandler FIQ_Handler),
      invoke E Xil_ExceptionEnable]"

definition multiboot_reg :: "config \<Rightarrow> u32" where
  "multiboot_reg C = DcfgBaseAddr C + XDCFG_MULTIBOOT_ADDR_OFFSET C"

definition Update_MultiBootRegister :: "env \<Rightarrow> config \<Rightarrow> unit op" where
  "Update_MultiBootRegister E C =
     bind (get Silicon_Version) (\<lambda>version.
     whenever (version \<noteq> SILICON_VERSION_1 C)
       (bind (Xil_In32 E (multiboot_reg C)) (\<lambda>MultiBootReg.
        Xil_Out32 E (multiboot_reg C) (MultiBootReg + 1))))"

definition GetResetReason :: "env \<Rightarrow> config \<Rightarrow> u32 op" where
  "GetResetReason E C = bind (Xil_In32 E (REBOOT_STATUS_REG C)) (\<lambda>v. ret (drop_bit 16 v AND 0xFF))"

definition GetSiliconVersion :: "env \<Rightarrow> unit op" where
  "GetSiliconVersion E = bind (ext E XDcfg_GetPsVersion) (\<lambda>v. set_gl (\<lambda>g. g\<lparr>Silicon_Version := v\<rparr>))"

definition DDRInitCheck :: "env \<Rightarrow> config \<Rightarrow> u32 op" where
  "DDRInitCheck E C =
     andThen (Xil_Out32 E (DDR_START_ADDR C) (DDR_TEST_PATTERN C))
     (bind (Xil_In32 E (DDR_START_ADDR C)) (\<lambda>ReadVal.
      if ReadVal \<noteq> DDR_TEST_PATTERN C then ret (XST_FAILURE C)
      else andThen (Xil_Out32 E (DDR_START_ADDR C + DDR_TEST_OFFSET C) (DDR_TEST_PATTERN C))
        (bind (Xil_In32 E (DDR_START_ADDR C + DDR_TEST_OFFSET C)) (\<lambda>ReadVal.
         if ReadVal \<noteq> DDR_TEST_PATTERN C then ret (XST_FAILURE C) else ret (XST_SUCCESS C)))))"

section \<open>Watchdog\<close>

record 'f double =
  dbl :: "u32 \<Rightarrow> 'f"
  ddiv :: "'f \<Rightarrow> 'f \<Rightarrow> 'f"
  trunc32 :: "'f \<Rightarrow> u32"

definition ConvertTime_WdtCounter :: "'f double \<Rightarrow> env \<Rightarrow> config \<Rightarrow> u32 \<Rightarrow> u32 op" where
  "ConvertTime_WdtCounter D E C seconds =
     bind (ext E (XWdtPs_GetControlValue XWDTPS_CLK_PRESCALE)) (\<lambda>Prescaler.
     let PrescalerValue = junk E;
         PrescalerValue = (if Prescaler = XWDTPS_CCR_PSCALE_0008 C then 8 else PrescalerValue);
         PrescalerValue = (if Prescaler = XWDTPS_CCR_PSCALE_0064 C then 64 else PrescalerValue);
         PrescalerValue = (if Prescaler = XWDTPS_CCR_PSCALE_4096 C then 4096 else PrescalerValue);
         time = ddiv D (dbl D PrescalerValue) (dbl D (WDT_CLK_FREQ C));
         CounterValue = ddiv D (dbl D seconds) time
     in ret (drop_bit 12 (trunc32 D CounterValue)))"

definition InitWatchDog :: "'f double \<Rightarrow> env \<Rightarrow> config \<Rightarrow> u32 op" where
  "InitWatchDog D E C =
     andThen (invoke E XWdtPs_LookupConfig)
     (bind (ext E XWdtPs_CfgInitialize) (\<lambda>Status.
      if Status \<noteq> XST_SUCCESS C then ret (XST_FAILURE C)
      else andThen (invoke E (XWdtPs_SetControlValue XWDTPS_CLK_PRESCALE (XWDTPS_CCR_PSCALE_4096 C)))
        (bind (ConvertTime_WdtCounter D E C 100) (\<lambda>CounterValue.
         andThen (steps [invoke E (XWdtPs_SetControlValue XWDTPS_COUNTER_RESET CounterValue),
                         invoke E XWdtPs_EnableOutput, invoke E XWdtPs_Start, invoke E XWdtPs_RestartWdt])
           (ret (XST_SUCCESS C))))))"

definition CheckWDTReset :: "env \<Rightarrow> config \<Rightarrow> unit op" where
  "CheckWDTReset E C =
     bind (Xil_In32 E (REBOOT_STATUS_REG C)) (\<lambda>RebootStatusRegister.
     bind (get Silicon_Version) (\<lambda>version.
     bind (if version = SILICON_VERSION_1 C then Xil_In32 E (RESET_REASON_REG C) else GetResetReason E C)
       (\<lambda>ResetReason.
     whenever (ResetReason AND RESET_REASON_SWDT C = RESET_REASON_SWDT C
         \<and> RebootStatusRegister AND FSBL_FAIL_MASK C = FSBL_IN_MASK C)
       (let ResetReason = ResetReason AND NOT (RESET_REASON_SWDT C)
        in if version = SILICON_VERSION_1 C then Xil_Out32 E (RESET_REASON_CLR C) 1
           else Xil_Out32 E (REBOOT_STATUS_REG C) ResetReason))))"

section \<open>Image search\<close>

definition boot_device_size :: "config \<Rightarrow> globals \<Rightarrow> u32" where
  "boot_device_size C g =
     (let BootDevMaxSize = 0;
          BootDevMaxSize = (if has_qspi C \<and> FlashReadBaseAddress g = XPS_QSPI_LINEAR_BASEADDR C
                            then QspiFlashSize g else BootDevMaxSize);
          BootDevMaxSize = (if FlashReadBaseAddress g = XPS_NAND_BASEADDR C
                            then NAND_FLASH_SIZE C else BootDevMaxSize)
      in if FlashReadBaseAddress g = XPS_NOR_BASEADDR C then NOR_FLASH_SIZE C else BootDevMaxSize)"

definition search_image :: "env \<Rightarrow> config \<Rightarrow> u32 \<Rightarrow> u32 option op" where
  "search_image E C MultiBootReg s =
     map_option (\<lambda>r. Ret r s)
       (image_search C (moved E (MoveImage (gl s)) (hist s)) (junk E) (boot_device_size C (gl s)) MultiBootReg)"

definition NextValidImageCheck :: "env \<Rightarrow> config \<Rightarrow> u32 op" where
  "NextValidImageCheck E C =
     bind (Xil_In32 E (multiboot_reg C)) (\<lambda>MultiBootReg.
     bind (search_image E C MultiBootReg) (\<lambda>found.
     case found of
       None \<Rightarrow> ret (XST_FAILURE C)
     | Some MultiBootReg \<Rightarrow> andThen (Xil_Out32 E (multiboot_reg C) MultiBootReg) (ret (XST_SUCCESS C))))"

section \<open>Fallback and handoff\<close>

definition read_boot_mode :: "env \<Rightarrow> config \<Rightarrow> u32 op" where
  "read_boot_mode E C = bind (Xil_In32 E (BOOT_MODE_REG C)) (\<lambda>v. ret (v AND BOOT_MODES_MASK C))"

text \<open>\<open>ClearFSBLIn(); FsblHookFallback();\<close>\<close>

definition give_up :: "env \<Rightarrow> config \<Rightarrow> unit op" where
  "give_up E C = andThen (ClearFSBLIn E C) (invoke E FsblHookFallback)"

definition fallback_notify :: "env \<Rightarrow> config \<Rightarrow> unit op" where
  "fallback_notify E C =
     bind (read_boot_mode E C) (\<lambda>BootModeRegister. steps
       [whenever (\<not> (BootModeRegister = QSPI_MODE C \<or> BootModeRegister = NAND_FLASH_MODE C
                    \<or> BootModeRegister = NOR_FLASH_MODE C)) (give_up E C),
        Update_MultiBootRegister E C,
        bind (Xil_In32 E (REBOOT_STATUS_REG C)) (\<lambda>RebootStatusReg.
        Xil_Out32 E (REBOOT_STATUS_REG C) (RebootStatusReg OR FSBL_FAIL_MASK C)),
        invoke E dsb_isb])"

text \<open>The search of the next image when the AES key is in the fuses, up to the handoff address.\<close>

definition fallback_next_image :: "env \<Rightarrow> config \<Rightarrow> u32 op" where
  "fallback_next_image E C =
     andThen (bind (ext E FabricInit) (\<lambda>Status. whenever (Status \<noteq> XST_SUCCESS C) (give_up E C)))
     (andThen (whenever (rsa_support C) (invoke E SetPpk))
     (andThen (bind (NextValidImageCheck E C) (\<lambda>Status. whenever (Status \<noteq> XST_SUCCESS C) (give_up E C)))
     (ext E LoadBootImage)))"

definition handoff_prepare :: "env \<Rightarrow> config \<Rightarrow> unit op" where
  "handoff_prepare E C =
     bind (get BitstreamFlag) (\<lambda>flag.
     whenever (flag \<noteq> 0 \<and> \<not> non_ps_bitstream C)
       (if post_config C then steps [invoke E ps7_post_config, invoke E SlcrUnlock]
        else steps [Xil_Out32 E (PS_LVL_SHFTR_EN C) (LVL_PL_PS C), Xil_Out32 E (FPGA_RESET_REG C) 0]))"

definition handoff_exit :: "env \<Rightarrow> config \<Rightarrow> u32 \<Rightarrow> unit op" where
  "handoff_exit E C FsblStartAddr = steps
     [whenever (has_wdt C) (invoke E XWdtPs_Stop),
      ClearFSBLIn E C,
      if FsblStartAddr = 0 then steps [invoke E SlcrLock, invoke E FsblHandoffJtagExit]
      else steps [OutputStatus E C SUCCESSFUL_HANDOFF, invoke E (FsblHandoffExit FsblStartAddr)],
      OutputStatus E C ILLEGAL_RETURN]"

fun FsblFallback :: "env \<Rightarrow> config \<Rightarrow> nat \<Rightarrow> unit op"
  and FsblHandoff :: "env \<Rightarrow> config \<Rightarrow> nat \<Rightarrow> u32 \<Rightarrow> unit op" where
  "FsblFallback E C 0 = (\<lambda>s. None)"
| "FsblFallback E C (Suc n) =
     andThen (fallback_notify E C)
     (andThen
       (bind (get PcapCtrlRegVal) (\<lambda>v.
        whenever (v AND XDCFG_CTRL_PCFG_AES_FUSE_MASK C \<noteq> 0)
          (bind (get SystemInitFlag) (\<lambda>flag.
           if flag = 1 then bind (fallback_next_image E C) (\<lambda>HandoffAddr. FsblHandoff E C n HandoffAddr)
           else give_up E C))))
       (Xil_Out32 E (PS_RST_CTRL_REG C) (PS_RST_MASK C)))"
| "FsblHandoff E C 0 FsblStartAddr = (\<lambda>s. None)"
| "FsblHandoff E C (Suc n) FsblStartAddr =
     andThen (handoff_prepare E C)
     (andThen
       (bind (ext E FsblHookBeforeHandoff) (\<lambda>Status.
        whenever (Status \<noteq> XST_SUCCESS C)
          (andThen (OutputStatus E C FSBL_HANDOFF_HOOK_FAIL) (FsblFallback E C n))))
       (andThen (handoff_exit E C FsblStartAddr) (FsblFallback E C n)))"

definition ErrorLockdown :: "env \<Rightarrow> config \<Rightarrow> nat \<Rightarrow> status_code \<Rightarrow> unit op" where
  "ErrorLockdown E C n State = andThen (OutputStatus E C State) (FsblFallback E C n)"

text \<open>The six exception handlers.\<close>

definition exception_handler :: "env \<Rightarrow> config \<Rightarrow> nat \<Rightarrow> handler \<Rightarrow> unit op" where
  "exception_handler E C n h = ErrorLockdown E C n (EXCEPTION_ID h)"

section \<open>main\<close>

text \<open>The performance measurement reads the global timer; the time it computes goes to the debug output.\<close>

definition FsblGetGlobalTime :: "env \<Rightarrow> unit op" where
  "FsblGetGlobalTime E = invoke E XTime_GetTime"

definition FsblMeasurePerfTime :: "env \<Rightarrow> unit op" where
  "FsblMeasurePerfTime E = invoke E XTime_GetTime"

text \<open>Up to the banner.\<close>

definition main_init :: "env \<Rightarrow> config \<Rightarrow> u32 op" where
  "main_init E C =
     bind (ext E ps7_init) (\<lambda>Status.
     andThen (steps
       [whenever (Status \<noteq> FSBL_PS7_INIT_SUCCESS C)
          (steps [OutputStatus E C PS7_INIT_FAIL, invoke E FsblHookFallback]),
        invoke E SlcrUnlock,
        whenever (FSBL_PERF C) (FsblGetGlobalTime E),
        invoke E Xil_DCacheFlush,
        invoke E Xil_DCacheDisable,
        RegisterHandlers E,
        Xil_Out32 E 0xE0000000 0x00000017])
     (ret Status))"

text \<open>DDR test, PCAP, silicon version.\<close>

definition main_ddr_pcap :: "env \<Rightarrow> config \<Rightarrow> u32 op" where
  "main_ddr_pcap E C =
     andThen (bind (DDRInitCheck E C) (\<lambda>Status.
       whenever (Status = XST_FAILURE C)
         (steps [OutputStatus E C DDR_INIT_FAIL, invoke E FsblHookFallback])))
     (bind (ext E InitPcap) (\<lambda>Status.
      andThen (whenever (Status = XST_FAILURE C)
         (steps [OutputStatus E C PCAP_INIT_FAIL, invoke E FsblHookFallback]))
      (andThen (GetSiliconVersion E) (ret Status))))"

text \<open>The watchdog and the AES fuse.\<close>

definition main_watchdog :: "'f double \<Rightarrow> env \<Rightarrow> config \<Rightarrow> nat \<Rightarrow> u32 \<Rightarrow> u32 op" where
  "main_watchdog D E C n Status =
     bind (if has_wdt C then
             andThen (CheckWDTReset E C)
             (bind (InitWatchDog D E C) (\<lambda>Status.
              andThen (whenever (Status = XST_FAILURE C)
                (andThen (OutputStatus E C WDT_INIT_FAIL) (FsblFallback E C n))) (ret Status)))
           else ret Status) (\<lambda>Status.
     bind (ext E XDcfg_GetControlRegister) (\<lambda>v.
     andThen (set_gl (\<lambda>g. g\<lparr>PcapCtrlRegVal := v\<rparr>))
     (andThen (whenever (v AND XDCFG_CTRL_PCFG_AES_FUSE_MASK C \<noteq> 0)
        (whenever (has_wdt C) (invoke E XWdtPs_Stop)))
     (ret Status))))"

definition jtag_boot :: "env \<Rightarrow> config \<Rightarrow> unit op" where
  "jtag_boot E C =
     bind (Xil_In32 E (XPS_DEV_CFG_APB_BASEADDR C + XDCFG_INT_STS_OFFSET C)) (\<lambda>RegVal. steps
       [whenever (RegVal AND XDCFG_IXR_PCFG_DONE_MASK C \<noteq> 0)
          (whenever (post_config C) (steps [invoke E ps7_post_config, invoke E SlcrUnlock])),
        whenever (has_wdt C) (invoke E XWdtPs_Stop),
        ClearFSBLIn E C,
        invoke E SlcrLock,
        invoke E FsblHandoffJtagExit])"

text \<open>A device whose initialisation may fail, and the mover it provides.\<close>

definition use_device :: "env \<Rightarrow> config \<Rightarrow> nat \<Rightarrow> call \<Rightarrow> status_code \<Rightarrow> mover \<Rightarrow> u32 op" where
  "use_device E C n init failure m =
     bind (ext E init) (\<lambda>Status.
     andThen (whenever (Status \<noteq> XST_SUCCESS C) (andThen (OutputStatus E C failure) (FsblFallback E C n)))
     (andThen (set_gl (\<lambda>g. g\<lparr>MoveImage := Some m\<rparr>)) (ret Status)))"

definition select_device :: "env \<Rightarrow> config \<Rightarrow> nat \<Rightarrow> u32 \<Rightarrow> u32 \<Rightarrow> u32 op" where
  "select_device E C n mode Status =
     (if has_qspi C \<and> mode = QSPI_MODE C then
        andThen (invoke E InitQspi) (andThen (set_gl (\<lambda>g. g\<lparr>MoveImage := Some QspiAccess\<rparr>)) (ret Status))
      else if has_nand C \<and> mode = NAND_FLASH_MODE C then use_device E C n InitNand NAND_INIT_FAIL NandAccess
      else if mode = NOR_FLASH_MODE C then
        andThen (invoke E InitNor) (andThen (set_gl (\<lambda>g. g\<lparr>MoveImage := Some NorAccess\<rparr>)) (ret Status))
      else if has_sd C \<and> mode = SD_MODE C then use_device E C n (InitSD ''BOOT.BIN'') SD_INIT_FAIL SDAccess
      else if has_sd C \<and> mode = MMC_MODE C then use_device E C n (InitSD ''BOOT.BIN'') SD_INIT_FAIL SDAccess
      else if mode = JTAG_MODE C then andThen (jtag_boot E C) (ret Status)
      else andThen (OutputStatus E C ILLEGAL_BOOT_MODE) (andThen (FsblFallback E C n) (ret Status)))"

definition effective_mode :: "config \<Rightarrow> u32 \<Rightarrow> u32" where
  "effective_mode C mode = (if has_qspi C \<and> mmc_support C \<and> mode = QSPI_MODE C then MMC_MODE C else mode)"

definition main_device :: "env \<Rightarrow> config \<Rightarrow> nat \<Rightarrow> u32 \<Rightarrow> u32 op" where
  "main_device E C n Status =
     andThen (MarkFSBLIn E C)
     (bind (read_boot_mode E C) (\<lambda>mode. select_device E C n (effective_mode C mode) Status))"

text \<open>From the check of the flash address on.\<close>

definition main_load :: "env \<Rightarrow> config \<Rightarrow> nat \<Rightarrow> unit op" where
  "main_load E C n =
     bind (get FlashReadBaseAddress) (\<lambda>base.
     andThen (whenever (base \<noteq> XPS_QSPI_LINEAR_BASEADDR C \<and> base \<noteq> XPS_NAND_BASEADDR C
         \<and> base \<noteq> XPS_NOR_BASEADDR C \<and> base \<noteq> XPS_SDIO0_BASEADDR C)
       (andThen (OutputStatus E C INVALID_FLASH_ADDRESS) (FsblFallback E C n)))
     (bind (get FlashReadBaseAddress) (\<lambda>base.
      andThen (steps
        [whenever (base = XPS_NOR_BASEADDR C) (set_gl (\<lambda>g. g\<lparr>LinearBootDeviceFlag := 1\<rparr>)),
         whenever (has_wdt C) (invoke E XWdtPs_RestartWdt),
         set_gl (\<lambda>g. g\<lparr>SystemInitFlag := 1\<rparr>)])
      (bind (ext E LoadBootImage) (\<lambda>HandoffAddress.
       andThen (whenever (FSBL_PERF C) (FsblMeasurePerfTime E)) (FsblHandoff E C n HandoffAddress))))))"

definition fsbl_main :: "'f double \<Rightarrow> env \<Rightarrow> config \<Rightarrow> nat \<Rightarrow> u32 op" where
  "fsbl_main D E C n =
     bind (main_init E C) (\<lambda>Status.
     if has_ddr C then
       bind (main_ddr_pcap E C) (\<lambda>Status.
       bind (main_watchdog D E C n Status) (\<lambda>Status.
       bind (main_device E C n Status) (\<lambda>Status.
       andThen (main_load E C n) (ret Status))))
     else andThen (OutputStatus E C NO_DDR) (andThen (FsblFallback E C n) (ret Status)))"

section \<open>Status output\<close>

lemma spin_read_reg:
  assumes "spin (read_reg E a) ready s = Some (v, t)"
  shows "\<exists>vs. t = s\<lparr>hist := map (Read a) vs @ hist s\<rparr>"
proof -
  have "\<exists>vs. snd r = s\<lparr>hist := map (Read a) vs @ hist s\<rparr>"
    if "spin (read_reg E a) ready s = Some r" for r
    using that
  proof (induction rule: spin_induct)
    case (ready s v t)
    then show ?case
      by (intro exI [of _ "[reads E a (hist s)]"]) (auto simp: read_reg_def Let_def record_event_def)
  next
    case (wait s v t r)
    then obtain vs where "snd r = t\<lparr>hist := map (Read a) vs @ hist t\<rparr>" by blast
    with wait(1) show ?case
      by (intro exI [of _ "vs @ [reads E a (hist s)]"]) (auto simp: read_reg_def Let_def record_event_def)
  qed
  with assms show ?thesis by fastforce
qed

text \<open>Reports and register reads, the only events \<open>OutputStatus\<close> adds.\<close>

fun quiet :: "event \<Rightarrow> bool" where
  "quiet (Read a v) = True"
| "quiet (Report c) = True"
| "quiet _ = False"

lemma wlp_OutputStatus:
  assumes "\<And>es. \<forall>e \<in> set es. quiet e \<Longrightarrow> Q () (s\<lparr>hist := es @ hist s\<rparr>)"
  shows "wlp (OutputStatus E C code) Q R s"
proof (cases "has_stdout C")
  case False
  have "Q () s" using assms [of "[]"] by simp
  with False show ?thesis by (simp add: OutputStatus_def wp_simps)
next
  case out: True
  let ?t = "record_event (Report code) s"
  have t: "Q () ?t" using assms [of "[Report code]"] by (simp add: record_event_def)
  have emit: "wlp (emit e) Q' R s = Q' () (record_event e s)" for e Q'
    by (simp add: wlp_def wp_def emit_def)
  have "wlp (uart_drain E C) Q R ?t"
  proof (cases "uart_drain E C ?t")
    case None
    then show ?thesis by (simp add: wlp_def)
  next
    case (Some r)
    then obtain v u where "spin (read_reg E (STDOUT_BASEADDRESS C + XUARTPS_SR_OFFSET C))
        (\<lambda>x. x AND XUARTPS_SR_TXEMPTY C = XUARTPS_SR_TXEMPTY C) ?t = Some (v, u)" and r: "r = Ret () u"
      by (auto simp: uart_drain_def)
    from spin_read_reg [OF this(1)] obtain vs where
      u: "u = ?t\<lparr>hist := map (Read (STDOUT_BASEADDRESS C + XUARTPS_SR_OFFSET C)) vs @ hist ?t\<rparr>" by blast
    have "Q () u"
      using assms [of "map (Read (STDOUT_BASEADDRESS C + XUARTPS_SR_OFFSET C)) vs @ [Report code]"]
      unfolding u by (simp add: record_event_def)
    with Some r show ?thesis by (simp add: wlp_def wp_def)
  qed
  with out t show ?thesis by (simp add: OutputStatus_def wp_simps emit)
qed

section \<open>What must hold when the boot loader hands over\<close>

text \<open>
  The last write to the reboot status register cleared the boot loader's mark; the watchdog was
  stopped after it was last started; the SLCR was locked after it was last unlocked.
\<close>

fun cleared :: "config \<Rightarrow> history \<Rightarrow> bool" where
  "cleared C [] = False"
| "cleared C (Write a v # h) = (if a = REBOOT_STATUS_REG C then v AND FSBL_FAIL_MASK C = 0 else cleared C h)"
| "cleared C (_ # h) = cleared C h"

fun wdt_off :: "config \<Rightarrow> history \<Rightarrow> bool" where
  "wdt_off C [] = (\<not> has_wdt C)"
| "wdt_off C (Call XWdtPs_Stop v # h) = True"
| "wdt_off C (Call XWdtPs_Start v # h) = (\<not> has_wdt C)"
| "wdt_off C (_ # h) = wdt_off C h"

fun slcr_locked :: "history \<Rightarrow> bool" where
  "slcr_locked [] = False"
| "slcr_locked (Call SlcrLock v # h) = True"
| "slcr_locked (Call SlcrUnlock v # h) = False"
| "slcr_locked (_ # h) = slcr_locked h"

fun exit_guard :: "config \<Rightarrow> call \<Rightarrow> history \<Rightarrow> bool" where
  "exit_guard C (FsblHandoffExit a) h = (a \<noteq> 0 \<and> cleared C h \<and> wdt_off C h)"
| "exit_guard C FsblHandoffJtagExit h = (cleared C h \<and> wdt_off C h \<and> slcr_locked h)"
| "exit_guard C _ h = True"

fun safe :: "config \<Rightarrow> history \<Rightarrow> bool" where
  "safe C [] = True"
| "safe C (Call c v # h) = (exit_guard C c h \<and> safe C h)"
| "safe C (NoReturn c # h) = (exit_guard C c h \<and> safe C h)"
| "safe C (_ # h) = safe C h"

lemma wdt_off_no_wdt: "\<not> has_wdt C \<Longrightarrow> wdt_off C h"
  by (induction C h rule: wdt_off.induct) simp_all

lemma quiet_events [simp]:
  assumes "\<forall>e \<in> set es. quiet e"
  shows "cleared C (es @ h) = cleared C h" "wdt_off C (es @ h) = wdt_off C h" "safe C (es @ h) = safe C h"
proof -
  have "quiet e \<Longrightarrow> cleared C (e # h) = cleared C h \<and> wdt_off C (e # h) = wdt_off C h \<and> safe C (e # h) = safe C h"
    for e h by (cases e) simp_all
  then show "cleared C (es @ h) = cleared C h" "wdt_off C (es @ h) = wdt_off C h" "safe C (es @ h) = safe C h"
    using assms by (induction es) auto
qed

named_theorems keeps_intros "operations that keep the handover guard"

definition keeps :: "config \<Rightarrow> 'a op \<Rightarrow> bool" where
  "keeps C m \<longleftrightarrow> (\<forall>s. safe C (hist s) \<longrightarrow>
     wlp m (\<lambda>_ t. safe C (hist t)) (\<lambda>t. safe C (hist t)) s)"

lemma keepsD: "keeps C m \<Longrightarrow> safe C (hist s) \<Longrightarrow>
    wlp m (\<lambda>_ t. safe C (hist t)) (\<lambda>t. safe C (hist t)) s"
  by (simp add: keeps_def)

lemma keeps_bind [keeps_intros]: "keeps C m \<Longrightarrow> (\<And>v. keeps C (f v)) \<Longrightarrow> keeps C (bind m f)"
  unfolding keeps_def wp_simps by (blast intro: wlp_mono)

lemma keeps_andThen [keeps_intros]: "keeps C m \<Longrightarrow> keeps C m' \<Longrightarrow> keeps C (andThen m m')"
  unfolding andThen_def by (rule keeps_bind)

lemma keeps_ret [keeps_intros]: "keeps C (ret v)" "keeps C (get f)" "keeps C (set_gl g)"
    "keeps C (Xil_In32 E a)" "keeps C (Xil_Out32 E a x)"
  by (simp_all add: keeps_def wp_simps)

lemma keeps_diverges [keeps_intros]: "keeps C (\<lambda>s. None)"
  by (simp add: keeps_def wlp_def)

lemma keeps_if [keeps_intros]: "(b \<Longrightarrow> keeps C m) \<Longrightarrow> (\<not> b \<Longrightarrow> keeps C m') \<Longrightarrow> keeps C (if b then m else m')"
  by simp

lemma keeps_whenever [keeps_intros]: "keeps C m \<Longrightarrow> keeps C (whenever b m)"
  unfolding whenever_def by (intro keeps_intros)

lemma keeps_steps [keeps_intros]: "keeps C (steps [])" "keeps C m \<Longrightarrow> keeps C (steps ms) \<Longrightarrow> keeps C (steps (m # ms))"
  by (simp_all add: steps.simps keeps_ret keeps_andThen)

lemma keeps_ext:
  assumes "\<And>h. exit_guard C c h"
  shows "keeps C (ext E c)" "keeps C (invoke E c)"
  using assms by (simp_all add: keeps_def wp_simps split: option.splits)

lemma keeps_OutputStatus [keeps_intros]: "keeps C (OutputStatus E C code)"
  unfolding keeps_def by (auto intro!: wlp_OutputStatus)

lemma clear_guard [simp]: "(v AND NOT m) AND m = (0 :: u32)"
  by (rule bit_word_eqI) (simp add: bit_simps)


lemma keeps_helpers [keeps_intros]:
  "keeps C (MarkFSBLIn E C)" "keeps C (ClearFSBLIn E C)" "keeps C (RegisterHandlers E)"
  "keeps C (Update_MultiBootRegister E C)" "keeps C (GetSiliconVersion E)" "keeps C (DDRInitCheck E C)"
  "keeps C (GetResetReason E C)" "keeps C (read_boot_mode E C)"
  unfolding MarkFSBLIn_def ClearFSBLIn_def RegisterHandlers_def Update_MultiBootRegister_def
    GetSiliconVersion_def DDRInitCheck_def GetResetReason_def read_boot_mode_def
  by (intro keeps_intros keeps_ext; simp)+

lemma keeps_watchdog [keeps_intros]:
  "keeps C (ConvertTime_WdtCounter D E C seconds)" "keeps C (InitWatchDog D E C)" "keeps C (CheckWDTReset E C)"
  unfolding ConvertTime_WdtCounter_def InitWatchDog_def CheckWDTReset_def Let_def
  by (intro keeps_intros keeps_ext; simp)+

lemma keeps_search [keeps_intros]: "keeps C (search_image E C mb)" "keeps C (NextValidImageCheck E C)"
proof -
  show s: "keeps C (search_image E C mb)" for mb
    by (auto simp: keeps_def wlp_def wp_def search_image_def split: option.splits)
  show "keeps C (NextValidImageCheck E C)"
    unfolding NextValidImageCheck_def
    by (intro keeps_bind keeps_ret s) (auto split: option.split intro!: keeps_intros)
qed

lemma keeps_give_up [keeps_intros]: "keeps C (give_up E C)"
  unfolding give_up_def by (intro keeps_intros keeps_ext) simp

lemma keeps_fallback_parts [keeps_intros]:
  "keeps C (fallback_notify E C)" "keeps C (fallback_next_image E C)" "keeps C (handoff_prepare E C)"
  unfolding fallback_notify_def fallback_next_image_def handoff_prepare_def
  by (intro keeps_intros keeps_ext; simp)+

text \<open>The two places where the boot loader hands over.\<close>

definition ready_to_leave :: "config \<Rightarrow> history \<Rightarrow> bool" where
  "ready_to_leave C h \<longleftrightarrow> safe C h \<and> cleared C h \<and> wdt_off C h"

lemma stop_and_clear:
  assumes "safe C (hist s)" "\<And>t. ready_to_leave C (hist t) \<Longrightarrow> Q () t" "\<And>t. safe C (hist t) \<Longrightarrow> R t"
  shows "wlp (whenever (has_wdt C) (invoke E XWdtPs_Stop)) (\<lambda>_. wlp (ClearFSBLIn E C) Q R) R s"
proof -
  have clear: "wlp (ClearFSBLIn E C) Q R t" if "safe C (hist t)" "wdt_off C (hist t)" for t
    using that by (simp add: ClearFSBLIn_def wp_simps ready_to_leave_def assms(2,3))
  show ?thesis
  proof (cases "has_wdt C")
    case True
    with assms(1) show ?thesis
      by (cases "answer E XWdtPs_Stop (hist s)") (simp_all add: wp_simps assms(3) clear)
  next
    case False
    with assms(1) show ?thesis by (simp add: wp_simps clear wdt_off_no_wdt)
  qed
qed

lemma lock_and_leave:
  assumes "ready_to_leave C (hist s)"
  shows "wlp (steps [invoke E SlcrLock, invoke E FsblHandoffJtagExit])
    (\<lambda>_ t. safe C (hist t)) (\<lambda>t. safe C (hist t)) s"
  using assms by (simp add: wp_simps ready_to_leave_def split: option.split)

lemma report_and_leave:
  assumes "ready_to_leave C (hist s)" "addr \<noteq> 0"
  shows "wlp (steps [OutputStatus E C code, invoke E (FsblHandoffExit addr)])
    (\<lambda>_ t. safe C (hist t)) (\<lambda>t. safe C (hist t)) s"
  unfolding wp_simps
  by (rule wlp_OutputStatus) (use assms in \<open>simp add: ready_to_leave_def split: option.split\<close>)

lemma keeps_handoff_exit [keeps_intros]: "keeps C (handoff_exit E C addr)"
  unfolding keeps_def handoff_exit_def
proof (intro allI impI)
  fix s :: fsbl
  assume s: "safe C (hist s)"
  let ?S = "\<lambda>t. safe C (hist t)"
  have last: "wlp (OutputStatus E C ILLEGAL_RETURN) (\<lambda>_. ?S) ?S t" if "?S t" for t
    using keepsD [OF keeps_OutputStatus that] .
  have leave: "wlp (if addr = 0 then steps [invoke E SlcrLock, invoke E FsblHandoffJtagExit]
      else steps [OutputStatus E C SUCCESSFUL_HANDOFF, invoke E (FsblHandoffExit addr)]) (\<lambda>_. ?S) ?S t"
    if "ready_to_leave C (hist t)" for t
    using lock_and_leave [OF that] report_and_leave [OF that] by simp
  show "wlp (steps [whenever (has_wdt C) (invoke E XWdtPs_Stop), ClearFSBLIn E C,
      if addr = 0 then steps [invoke E SlcrLock, invoke E FsblHandoffJtagExit]
      else steps [OutputStatus E C SUCCESSFUL_HANDOFF, invoke E (FsblHandoffExit addr)],
      OutputStatus E C ILLEGAL_RETURN]) (\<lambda>_. ?S) ?S s"
    unfolding wp_steps by (rule stop_and_clear [OF s]) (rule wlp_mono [OF leave]; auto intro: last)
qed

lemma keeps_jtag_boot [keeps_intros]: "keeps C (jtag_boot E C)"
  unfolding jtag_boot_def
proof (rule keeps_bind [OF keeps_ret(4)], rule keeps_steps(2))
  fix v
  show "keeps C (whenever (v AND XDCFG_IXR_PCFG_DONE_MASK C \<noteq> 0)
      (whenever (post_config C) (steps [invoke E ps7_post_config, invoke E SlcrUnlock])))"
    by (intro keeps_intros keeps_ext; simp)
  show "keeps C (steps [whenever (has_wdt C) (invoke E XWdtPs_Stop), ClearFSBLIn E C, invoke E SlcrLock,
      invoke E FsblHandoffJtagExit])"
    unfolding keeps_def
  proof (intro allI impI)
    fix s :: fsbl
    assume s: "safe C (hist s)"
    show "wlp (steps [whenever (has_wdt C) (invoke E XWdtPs_Stop), ClearFSBLIn E C, invoke E SlcrLock,
      invoke E FsblHandoffJtagExit]) (\<lambda>_ t. safe C (hist t)) (\<lambda>t. safe C (hist t)) s"
      unfolding wp_steps(4) [of "whenever (has_wdt C) (invoke E XWdtPs_Stop)"] wp_steps(4) [of "ClearFSBLIn E C"]
      by (rule stop_and_clear [OF s lock_and_leave]) auto
  qed
qed

lemma keeps_fallback [keeps_intros]:
  "keeps C (FsblFallback E C n)" "keeps C (FsblHandoff E C n addr)"
proof (induction n arbitrary: addr)
  case 0
  show "keeps C (FsblFallback E C 0)" "keeps C (FsblHandoff E C 0 addr)" for addr
    by (simp_all add: keeps_diverges)
next
  case (Suc n)
  show "keeps C (FsblFallback E C (Suc n))"
    unfolding FsblFallback.simps by (intro keeps_intros Suc)
  show "keeps C (FsblHandoff E C (Suc n) addr)" for addr
    unfolding FsblHandoff.simps by (intro keeps_intros Suc keeps_ext) simp
qed

lemma keeps_main_parts [keeps_intros]:
  "keeps C (main_init E C)" "keeps C (main_ddr_pcap E C)" "keeps C (main_watchdog D E C n st)"
  "keeps C (main_device E C n st)" "keeps C (main_load E C n)"
  unfolding main_init_def main_ddr_pcap_def main_watchdog_def main_device_def main_load_def
    select_device_def use_device_def FsblGetGlobalTime_def FsblMeasurePerfTime_def
  by (intro keeps_intros keeps_ext; simp)+

text \<open>
  C4: Whatever the hardware, the hooks and the other files answer, and however often fallback and
  handoff call each other: each time the boot loader hands over to an application the address is not
  0, its mark in the reboot status register was cleared by its last write there, and the watchdog
  has been stopped since it was last started; each time it leaves for JTAG the same holds and the
  SLCR is locked.
\<close>

theorem boot_hands_over_safely:
  "case fsbl_main D E C n \<lparr>gl = g, hist = []\<rparr> of
     None \<Rightarrow> True
   | Some (Ret _ t) \<Rightarrow> safe C (hist t)
   | Some (Stop t) \<Rightarrow> safe C (hist t)"
proof -
  have "keeps C (fsbl_main D E C n)"
    unfolding fsbl_main_def by (intro keeps_intros)
  from keepsD [OF this, of "\<lparr>gl = g, hist = []\<rparr>"] show ?thesis
    by (auto simp: wlp_def wp_def split: option.splits result.splits)
qed

end
