(* ===== verification/FsblOutcome.thy ===== *)
theory FsblOutcome
  imports FsblBoot Complex_Main
begin

text \<open>
  What the functions of \<open>FsblBoot\<close> do when the hardware answers: the reset after a failure, giving
  up where there is no fallback, the dispatch on the boot mode, the next image, the reboot status
  register, and a boot that reaches the application.
\<close>

section \<open>The reboot status register as a register\<close>

text \<open>The value last written at an address; \<open>init\<close> when there is none.\<close>

fun last_written :: "u32 \<Rightarrow> u32 \<Rightarrow> history \<Rightarrow> u32" where
  "last_written init a [] = init"
| "last_written init a (Write b v # h) = (if b = a then v else last_written init a h)"
| "last_written init a (_ # h) = last_written init a h"

text \<open>A location that reads back what was written, and whose writes do not reset the system.\<close>

definition storage :: "env \<Rightarrow> u32 \<Rightarrow> u32 \<Rightarrow> bool" where
  "storage E init a \<longleftrightarrow> (\<forall>h. reads E a h = last_written init a h) \<and> (\<forall>v h. \<not> resets E a v h)"

text \<open>
  On a reboot status register that stores what is written, \<open>MarkFSBLIn\<close> adds exactly the
  boot loader's mark, and \<open>ClearFSBLIn\<close> afterwards removes it again and leaves every bit outside
  the failure mask as it was before.
\<close>

theorem mark_then_clear:
  assumes "storage E init (REBOOT_STATUS_REG C)" "FSBL_IN_MASK C AND NOT (FSBL_FAIL_MASK C) = 0"
  shows "\<exists>t u. MarkFSBLIn E C s = Some (Ret () t) \<and> ClearFSBLIn E C t = Some (Ret () u)
    \<and> last_written init (REBOOT_STATUS_REG C) (hist t) =
        last_written init (REBOOT_STATUS_REG C) (hist s) OR FSBL_IN_MASK C
    \<and> last_written init (REBOOT_STATUS_REG C) (hist u) =
        last_written init (REBOOT_STATUS_REG C) (hist s) AND NOT (FSBL_FAIL_MASK C)"
proof -
  have "(r OR m) AND NOT f = (r AND NOT f) OR (m AND NOT f)" for r m f :: u32
    by (rule bit_word_eqI) (auto simp: bit_simps)
  then have "(r OR FSBL_IN_MASK C) AND NOT (FSBL_FAIL_MASK C) = r AND NOT (FSBL_FAIL_MASK C)" for r
    using assms(2) by simp
  then show ?thesis
    using assms(1)
    by (simp add: storage_def MarkFSBLIn_def ClearFSBLIn_def bind_def Xil_In32_def Xil_Out32_def
        read_reg_def Let_def)
qed

section \<open>After a watchdog reset\<close>

text \<open>
  C33: After a watchdog reset during the boot loader (not on 1.0 silicon), \<open>CheckWDTReset\<close>
  writes the reset reason back without shifting it to bits 23 to 16: the reason field of the register
  becomes 0, the other reasons it held end up in its low byte, and the boot loader's mark, which lies
  above that byte, is gone. It does not fall back.
\<close>

theorem wdt_reset_status_lost:
  assumes "storage E init (REBOOT_STATUS_REG C)" "r = last_written init (REBOOT_STATUS_REG C) (hist s)"
    and "Silicon_Version (gl s) \<noteq> SILICON_VERSION_1 C"
    and "(drop_bit 16 r AND 0xFF) AND RESET_REASON_SWDT C = RESET_REASON_SWDT C"
    and "r AND FSBL_FAIL_MASK C = FSBL_IN_MASK C" "FSBL_IN_MASK C AND 0xFF = 0"
  shows "\<exists>t. CheckWDTReset E C s = Some (Ret () t)
    \<and> last_written init (REBOOT_STATUS_REG C) (hist t) = (drop_bit 16 r AND 0xFF) AND NOT (RESET_REASON_SWDT C)
    \<and> drop_bit 16 (last_written init (REBOOT_STATUS_REG C) (hist t)) AND 0xFF = 0
    \<and> last_written init (REBOOT_STATUS_REG C) (hist t) AND FSBL_IN_MASK C = 0"
proof -
  have mark: "((x AND 0xFF) AND y) AND FSBL_IN_MASK C = 0" for x y :: u32
  proof -
    have "((x AND 0xFF) AND y) AND FSBL_IN_MASK C = (x AND y) AND (FSBL_IN_MASK C AND 0xFF)"
      by (simp add: and.assoc and.commute and.left_commute)
    then show ?thesis by (simp add: assms(6))
  qed
  have z: "drop_bit 16 ((drop_bit 16 r AND 0xFF) AND m) AND 0xFF = 0" for m :: u32
  proof -
    have "(0xFF :: u32) = mask 8" by (simp add: mask_eq_exp_minus_1)
    then show ?thesis
      by (intro bit_word_eqI) (simp only: bit_and_iff bit_drop_bit_eq comp_apply bit_mask_iff, simp)
  qed
  show ?thesis
    using assms z mark
    by (simp add: storage_def CheckWDTReset_def GetResetReason_def bind_def get_def whenever_def ret_def
        Xil_In32_def Xil_Out32_def read_reg_def Let_def)
qed

section \<open>Falling back\<close>

lemma wp_StopD: "wp m (\<lambda>_ _. False) R s \<Longrightarrow> \<exists>t. m s = Some (Stop t) \<and> R t"
  by (auto simp: wp_def split: option.splits result.splits)

lemma wp_RetD: "wp m Q (\<lambda>_. False) s \<Longrightarrow> \<exists>v t. m s = Some (Ret v t) \<and> Q v t"
  by (auto simp: wp_def split: option.splits result.splits)

text \<open>
  The fallback as far as the registers: writing the reset mask resets the system, the registers of
  the fallback are storage, and the barrier returns.
\<close>

definition can_reset :: "env \<Rightarrow> config \<Rightarrow> bool" where
  "can_reset E C \<longleftrightarrow> (\<forall>h. resets E (PS_RST_CTRL_REG C) (PS_RST_MASK C) h)
     \<and> (\<forall>v h. \<not> resets E (REBOOT_STATUS_REG C) v h) \<and> (\<forall>v h. \<not> resets E (multiboot_reg C) v h)
     \<and> (\<forall>h. answer E dsb_isb h = Some 0) \<and> (\<forall>h g. effect E dsb_isb h g = g)"

lemma fallback_resets:
  assumes "can_reset E C" "Silicon_Version (gl s) \<noteq> SILICON_VERSION_1 C"
    and "PcapCtrlRegVal (gl s) AND XDCFG_CTRL_PCFG_AES_FUSE_MASK C = 0"
    and "reads E (BOOT_MODE_REG C) (hist s) AND BOOT_MODES_MASK C \<in> {QSPI_MODE C, NAND_FLASH_MODE C, NOR_FLASH_MODE C}"
  shows "\<exists>t m mb r. FsblFallback E C (Suc n) s = Some (Stop t)
    \<and> hist t = [Write (PS_RST_CTRL_REG C) (PS_RST_MASK C), Call dsb_isb 0,
         Write (REBOOT_STATUS_REG C) (r OR FSBL_FAIL_MASK C), Read (REBOOT_STATUS_REG C) r,
         Write (multiboot_reg C) (mb + 1), Read (multiboot_reg C) mb, Read (BOOT_MODE_REG C) m] @ hist s"
proof -
  let ?R = "\<lambda>t. \<exists>m mb r. hist t = [Write (PS_RST_CTRL_REG C) (PS_RST_MASK C), Call dsb_isb 0,
         Write (REBOOT_STATUS_REG C) (r OR FSBL_FAIL_MASK C), Read (REBOOT_STATUS_REG C) r,
         Write (multiboot_reg C) (mb + 1), Read (multiboot_reg C) mb, Read (BOOT_MODE_REG C) m] @ hist s"
  have "wp (FsblFallback E C (Suc n)) (\<lambda>_ _. False) ?R s"
    using assms by (auto simp: can_reset_def fallback_notify_def read_boot_mode_def
        Update_MultiBootRegister_def wp_simps)
  from wp_StopD [OF this] show ?thesis by blast
qed

text \<open>A status report that returns: the UART's transmit buffer runs empty.\<close>

definition uart_empties :: "env \<Rightarrow> config \<Rightarrow> bool" where
  "uart_empties E C \<longleftrightarrow> (\<forall>h. reads E (STDOUT_BASEADDRESS C + XUARTPS_SR_OFFSET C) h AND XUARTPS_SR_TXEMPTY C
     = XUARTPS_SR_TXEMPTY C)"

text \<open>
  In a boot mode without fallback (SD, MMC, JTAG) \<open>FsblFallback\<close> clears the failure
  mask in the reboot status register and ends in the fallback hook: no reset, no change of the
  multiboot register.
\<close>

theorem boot_mode_without_fallback_gives_up:
  assumes "reads E (BOOT_MODE_REG C) (hist s) AND BOOT_MODES_MASK C \<notin> {QSPI_MODE C, NAND_FLASH_MODE C, NOR_FLASH_MODE C}"
    and "\<And>v h. \<not> resets E (REBOOT_STATUS_REG C) v h" "\<And>h. answer E FsblHookFallback h = None"
  shows "\<exists>t m r. FsblFallback E C (Suc n) s = Some (Stop t)
    \<and> hist t = [NoReturn FsblHookFallback, Write (REBOOT_STATUS_REG C) (r AND NOT (FSBL_FAIL_MASK C)),
         Read (REBOOT_STATUS_REG C) r, Read (BOOT_MODE_REG C) m] @ hist s"
proof -
  let ?R = "\<lambda>t. \<exists>m r. hist t = [NoReturn FsblHookFallback,
      Write (REBOOT_STATUS_REG C) (r AND NOT (FSBL_FAIL_MASK C)),
      Read (REBOOT_STATUS_REG C) r, Read (BOOT_MODE_REG C) m] @ hist s"
  have "wp (FsblFallback E C (Suc n)) (\<lambda>_ _. False) ?R s"
    using assms by (auto simp: fallback_notify_def give_up_def ClearFSBLIn_def read_boot_mode_def wp_simps)
  from wp_StopD [OF this] show ?thesis by blast
qed

section \<open>Exceptions\<close>

text \<open>The history after a status report to an empty UART.\<close>

definition after_status :: "env \<Rightarrow> config \<Rightarrow> status_code \<Rightarrow> history \<Rightarrow> history" where
  "after_status E C code h =
     (if has_stdout C then
        (let sr = STDOUT_BASEADDRESS C + XUARTPS_SR_OFFSET C; h = Report code # h
         in if has_uart C then Read sr (reads E sr h) # h else h)
      else h)"

lemma wp_emit [wp_simps]: "wp (emit e) Q R s = Q () (record_event e s)"
  by (simp add: wp_def emit_def)

lemma wp_uart_drain:
  assumes "uart_empties E C"
  shows "wp (uart_drain E C) Q R s = Q () (record_event (Read (STDOUT_BASEADDRESS C + XUARTPS_SR_OFFSET C)
    (reads E (STDOUT_BASEADDRESS C + XUARTPS_SR_OFFSET C) (hist s))) s)"
  using assms by (simp add: wp_def uart_drain_def spin.simps read_reg_def Let_def uart_empties_def)

lemma wp_OutputStatus:
  assumes "uart_empties E C"
  shows "wp (OutputStatus E C code) Q R s = Q () (s\<lparr>hist := after_status E C code (hist s)\<rparr>)"
  by (simp add: OutputStatus_def wp_simps wp_uart_drain [OF assms] after_status_def Let_def record_event_def)

text \<open>
  C20: Every exception, in a boot mode with fallback and without an AES key in the fuses,
  reports its code, increments the multiboot register once, sets the failure mask in the reboot
  status register and only then resets the system.
\<close>

theorem exception_resets:
  assumes "can_reset E C" "uart_empties E C" "Silicon_Version (gl s) \<noteq> SILICON_VERSION_1 C"
    and "PcapCtrlRegVal (gl s) AND XDCFG_CTRL_PCFG_AES_FUSE_MASK C = 0"
    and "\<And>h. reads E (BOOT_MODE_REG C) h AND BOOT_MODES_MASK C \<in> {QSPI_MODE C, NAND_FLASH_MODE C, NOR_FLASH_MODE C}"
  shows "\<exists>t m mb r. exception_handler E C (Suc n) x s = Some (Stop t)
    \<and> hist t = [Write (PS_RST_CTRL_REG C) (PS_RST_MASK C), Call dsb_isb 0,
         Write (REBOOT_STATUS_REG C) (r OR FSBL_FAIL_MASK C), Read (REBOOT_STATUS_REG C) r,
         Write (multiboot_reg C) (mb + 1), Read (multiboot_reg C) mb, Read (BOOT_MODE_REG C) m]
         @ after_status E C (EXCEPTION_ID x) (hist s)"
proof -
  let ?s = "s\<lparr>hist := after_status E C (EXCEPTION_ID x) (hist s)\<rparr>"
  obtain t m mb r where t: "FsblFallback E C (Suc n) ?s = Some (Stop t)"
    "hist t = [Write (PS_RST_CTRL_REG C) (PS_RST_MASK C), Call dsb_isb 0,
         Write (REBOOT_STATUS_REG C) (r OR FSBL_FAIL_MASK C), Read (REBOOT_STATUS_REG C) r,
         Write (multiboot_reg C) (mb + 1), Read (multiboot_reg C) mb, Read (BOOT_MODE_REG C) m] @ hist ?s"
    using fallback_resets [OF assms(1), of ?s n] assms(3-5) by auto
  have "wp (exception_handler E C (Suc n) x) (\<lambda>_ _. False) (\<lambda>u. u = t) s"
    unfolding exception_handler_def ErrorLockdown_def wp_andThen wp_OutputStatus [OF assms(2)]
    by (simp add: wp_def t(1) del: FsblFallback.simps)
  from wp_StopD [OF this] t(2) show ?thesis by auto
qed

section \<open>The boot device\<close>

text \<open>The initialisation and the mover of each boot mode that has a device.\<close>

definition devices :: "config \<Rightarrow> (u32 \<times> call \<times> mover) list" where
  "devices C =
     (if has_qspi C then [(QSPI_MODE C, InitQspi, QspiAccess)] else [])
     @ (if has_nand C then [(NAND_FLASH_MODE C, InitNand, NandAccess)] else [])
     @ [(NOR_FLASH_MODE C, InitNor, NorAccess)]
     @ (if has_sd C then [(SD_MODE C, InitSD ''BOOT.BIN'', SDAccess), (MMC_MODE C, InitSD ''BOOT.BIN'', SDAccess)]
        else [])"

text \<open>
  The boot mode decides which device is initialised and which mover loads the image,
  as in the table \<open>devices\<close> (QSPI, NAND, NOR, SD, MMC, under their build options, the first match):
  exactly that initialisation is called, and it returns with the mover set.
\<close>

theorem boot_mode_selects_device:
  assumes "map_of (devices C) mode = Some (c, m)" "answer E c (hist s) = Some (XST_SUCCESS C)"
  shows "\<exists>v t. select_device E C n mode st s = Some (Ret v t) \<and> hist t = Call c (XST_SUCCESS C) # hist s
    \<and> MoveImage (gl t) = Some m"
  using assms
  by (auto simp: devices_def select_device_def use_device_def andThen_def bind_def ext_def invoke_def
      set_gl_def ret_def whenever_def record_event_def split: if_splits)

lemma select_use_device:
  assumes "map_of (devices C) mode = Some (c, m)" "c \<in> {InitNand, InitSD ''BOOT.BIN''}"
  shows "select_device E C n mode st = use_device E C n c (if c = InitNand then NAND_INIT_FAIL else SD_INIT_FAIL) m"
  using assms by (auto simp: devices_def select_device_def split: if_splits)

text \<open>
  A NAND flash that fails to initialise is reported and ends in the reset that makes the
  boot ROM try the next image.
\<close>

theorem nand_failure_resets:
  assumes "has_nand C" "mode = NAND_FLASH_MODE C" "has_qspi C \<longrightarrow> mode \<noteq> QSPI_MODE C"
    and "answer E InitNand (hist s) = Some v" "v \<noteq> XST_SUCCESS C"
    and "effect E InitNand (hist s) (gl s) = gl s"
    and "can_reset E C" "uart_empties E C" "Silicon_Version (gl s) \<noteq> SILICON_VERSION_1 C"
    and "PcapCtrlRegVal (gl s) AND XDCFG_CTRL_PCFG_AES_FUSE_MASK C = 0"
    and "\<And>h. reads E (BOOT_MODE_REG C) h AND BOOT_MODES_MASK C = mode"
  shows "\<exists>t h. select_device E C (Suc n) mode st s = Some (Stop t)
    \<and> hist t = Write (PS_RST_CTRL_REG C) (PS_RST_MASK C) # h @ after_status E C NAND_INIT_FAIL (Call InitNand v # hist s)"
proof -
  let ?s = "s\<lparr>hist := after_status E C NAND_INIT_FAIL (Call InitNand v # hist s)\<rparr>"
  obtain t h where t: "FsblFallback E C (Suc n) ?s = Some (Stop t)"
    "hist t = Write (PS_RST_CTRL_REG C) (PS_RST_MASK C) # h @ hist ?s"
    using fallback_resets [OF assms(7), of ?s n] assms(2,9-11) by auto
  have sel: "select_device E C (Suc n) mode st = use_device E C (Suc n) InitNand NAND_INIT_FAIL NandAccess"
    using assms(1-3) by (auto simp: select_device_def)
  have "wp (select_device E C (Suc n) mode st) (\<lambda>_ _. False) (\<lambda>u. u = t) s"
    unfolding sel use_device_def using assms(4-6) t(1)
    by (simp add: wp_simps wp_OutputStatus [OF assms(8)] del: FsblFallback.simps)
      (simp add: wp_def record_event_def del: FsblFallback.simps)
  from wp_StopD [OF this] t(2) show ?thesis by auto
qed

section \<open>The next image\<close>

lemma wp_search_image:
  assumes "image_search C (moved E (MoveImage (gl s)) (hist s)) (junk E) (boot_device_size C (gl s)) mb = Some r"
  shows "wp (search_image E C mb) Q R s = Q r s"
  using assms by (simp add: wp_def search_image_def)

text \<open>
  C19: When every place for an image in the boot device lies below the last offset of the
  multiboot field, \<open>NextValidImageCheck\<close> returns: with success and the multiboot register set to the
  first valid image at or after the current one, or with failure and the register untouched when there
  is none.
\<close>

theorem next_image_found:
  assumes "offset_field C m" "unat (boot_device_size C (gl s)) \<le> (2 ^ m - 1) * unat (GOLDEN_IMAGE_OFFSET C)"
    and "\<And>v h. \<not> resets E (multiboot_reg C) v h" "XST_SUCCESS C \<noteq> XST_FAILURE C"
    and "mb = reads E (multiboot_reg C) (hist s)" "h = Read (multiboot_reg C) mb # hist s"
  shows "\<exists>v t. NextValidImageCheck E C s = Some (Ret v t) \<and>
    (case find (\<lambda>n. valid_image C (moved E (MoveImage (gl s)) h) (junk E) (of_nat (n * unat (GOLDEN_IMAGE_OFFSET C))))
        [field m mb..<places C (boot_device_size C (gl s))] of
       None \<Rightarrow> v = XST_FAILURE C \<and> hist t = h
     | Some n \<Rightarrow> v = XST_SUCCESS C \<and> hist t = Write (multiboot_reg C) (mb + of_nat (n - field m mb)) # h)"
proof -
  let ?s = "s\<lparr>hist := h\<rparr>"
  let ?f = "find (\<lambda>n. valid_image C (moved E (MoveImage (gl s)) h) (junk E) (of_nat (n * unat (GOLDEN_IMAGE_OFFSET C))))
        [field m mb..<places C (boot_device_size C (gl s))]"
  have search: "image_search C (moved E (MoveImage (gl ?s)) (hist ?s)) (junk E) (boot_device_size C (gl ?s)) mb =
      Some (map_option (\<lambda>n. mb + of_nat (n - field m mb)) ?f)"
    using image_search_finds_first [OF assms(1,2)] by simp
  have "wp (NextValidImageCheck E C) (\<lambda>v t. case ?f of
       None \<Rightarrow> v = XST_FAILURE C \<and> hist t = h
     | Some n \<Rightarrow> v = XST_SUCCESS C \<and> hist t = Write (multiboot_reg C) (mb + of_nat (n - field m mb)) # h)
     (\<lambda>_. False) s"
    using wp_search_image [OF search] assms(3,5,6)
    by (cases ?f) (simp_all add: NextValidImageCheck_def wp_simps record_event_def)
  from wp_RetD [OF this] show ?thesis .
qed

text \<open>
  C31: When the boot device is larger than the last offset the multiboot field can express
  and holds no valid image, \<open>NextValidImageCheck\<close> never returns: the masked offset wraps around.
\<close>

theorem next_image_search_never_ends:
  assumes "offset_field C m" "(2 ^ m - 1) * unat (GOLDEN_IMAGE_OFFSET C) < unat (boot_device_size C (gl s))"
    and "\<And>w h. \<not> valid_image C (moved E (MoveImage (gl s)) h) (junk E) (ImageBaseAddr C w)"
  shows "NextValidImageCheck E C s = None"
proof -
  have "search_image E C mb (record_event e s) = None" for mb e
    using image_search_never_ends [OF assms(1,2,3)] by (simp add: search_image_def)
  then show ?thesis
    by (simp add: NextValidImageCheck_def bind_def Xil_In32_def read_reg_def Let_def)
qed

section \<open>A boot that works\<close>

text \<open>The registers a boot writes as long as nothing fails.\<close>

definition boot_writes :: "config \<Rightarrow> u32 set" where
  "boot_writes C = {0xE0000000, DDR_START_ADDR C, DDR_START_ADDR C + DDR_TEST_OFFSET C, REBOOT_STATUS_REG C,
     RESET_REASON_CLR C, PS_LVL_SHFTR_EN C, FPGA_RESET_REG C}"

text \<open>
  Every device works: initialisations succeed, the DDR reads back the pattern, the UART drains, the
  loader finds an application at \<open>addr\<close>, the only calls that do not return are the jump to it and the
  wait for the debugger, and the device initialisations set the flash address \<open>base\<close>. Nothing is
  said of the fallback hook, which may return any value or not at all. No write resets the
  system except the one that asks for it, to a register apart from the others.
\<close>

definition all_works :: "env \<Rightarrow> config \<Rightarrow> u32 \<Rightarrow> u32 \<Rightarrow> bool" where
  "all_works E C base addr \<longleftrightarrow>
     (\<forall>c h. c \<noteq> FsblHookFallback \<longrightarrow> answer E c h = (if c = ps7_init then Some (FSBL_PS7_INIT_SUCCESS C)
        else if c = LoadBootImage then Some addr
        else if c = FsblHandoffExit addr \<or> c = FsblHandoffJtagExit then None else Some (XST_SUCCESS C)))
     \<and> XST_SUCCESS C = 0 \<and> XST_FAILURE C \<noteq> 0
     \<and> (\<forall>a v h. resets E a v h \<longrightarrow> a = PS_RST_CTRL_REG C \<and> v = PS_RST_MASK C)
     \<and> PS_RST_CTRL_REG C \<notin> boot_writes C
     \<and> (\<forall>h. reads E (DDR_START_ADDR C) h = DDR_TEST_PATTERN C)
     \<and> (\<forall>h. reads E (DDR_START_ADDR C + DDR_TEST_OFFSET C) h = DDR_TEST_PATTERN C)
     \<and> uart_empties E C
     \<and> (\<forall>c h g. FlashReadBaseAddress (effect E c h g) =
          (if c \<in> {InitQspi, InitNand, InitNor, InitSD ''BOOT.BIN''} then base else FlashReadBaseAddress g))
     \<and> base \<in> {XPS_QSPI_LINEAR_BASEADDR C, XPS_NAND_BASEADDR C, XPS_NOR_BASEADDR C, XPS_SDIO0_BASEADDR C}"

lemma all_worksD:
  assumes "all_works E C base addr"
  shows "c \<noteq> FsblHookFallback \<Longrightarrow> answer E c h = (if c = ps7_init then Some (FSBL_PS7_INIT_SUCCESS C)
        else if c = LoadBootImage then Some addr
        else if c = FsblHandoffExit addr \<or> c = FsblHandoffJtagExit then None else Some 0)"
    "XST_SUCCESS C = 0" "XST_FAILURE C \<noteq> 0" "a \<noteq> PS_RST_CTRL_REG C \<Longrightarrow> \<not> resets E a v h"
    "reads E (DDR_START_ADDR C) h = DDR_TEST_PATTERN C"
    "reads E (DDR_START_ADDR C + DDR_TEST_OFFSET C) h = DDR_TEST_PATTERN C"
    "FlashReadBaseAddress (effect E c h g) =
       (if c \<in> {InitQspi, InitNand, InitNor, InitSD ''BOOT.BIN''} then base else FlashReadBaseAddress g)"
    "uart_empties E C"
  using assms unfolding all_works_def by (simp, simp, simp, blast, simp, simp, simp, simp)

lemma boot_writes_apart:
  assumes "all_works E C base addr"
  shows "0xE0000000 \<noteq> PS_RST_CTRL_REG C" "DDR_START_ADDR C \<noteq> PS_RST_CTRL_REG C"
    "DDR_START_ADDR C + DDR_TEST_OFFSET C \<noteq> PS_RST_CTRL_REG C" "REBOOT_STATUS_REG C \<noteq> PS_RST_CTRL_REG C"
    "RESET_REASON_CLR C \<noteq> PS_RST_CTRL_REG C" "PS_LVL_SHFTR_EN C \<noteq> PS_RST_CTRL_REG C"
    "FPGA_RESET_REG C \<noteq> PS_RST_CTRL_REG C"
  using assms by (auto simp: all_works_def boot_writes_def)

text \<open>
  What a boot does only when it gives up or falls back: a status report other than the one of the
  handoff, a call of the fallback hook, the barrier \<open>FsblFallback\<close> makes before its
  reset, the reset itself.
\<close>

fun failure_event :: "config \<Rightarrow> event \<Rightarrow> bool" where
  "failure_event C (Read a v) = False"
| "failure_event C (Write a v) = (a = PS_RST_CTRL_REG C \<and> v = PS_RST_MASK C)"
| "failure_event C (Call c v) = (c = FsblHookFallback \<or> c = dsb_isb)"
| "failure_event C (NoReturn c) = (c = FsblHookFallback \<or> c = dsb_isb)"
| "failure_event C (Report code) = (code \<noteq> SUCCESSFUL_HANDOFF)"

definition failures :: "config \<Rightarrow> fsbl \<Rightarrow> event list" where
  "failures C s = filter (failure_event C) (hist s)"

lemma failures_simps:
  "\<not> failure_event C e \<Longrightarrow> failures C (record_event e s) = failures C s"
  "failures C (s\<lparr>gl := g\<rparr>) = failures C s"
  "failures C (s\<lparr>hist := after_status E C SUCCESSFUL_HANDOFF h\<rparr>) = filter (failure_event C) h"
  by (simp_all add: failures_def record_event_def after_status_def Let_def)

lemmas works_simps = wp_simps failures_simps

lemma works_init:
  assumes "all_works E C base addr"
  shows "wp (main_init E C) (\<lambda>_ t. failures C t = failures C s) (\<lambda>_. False) s"
  by (simp add: main_init_def RegisterHandlers_def FsblGetGlobalTime_def works_simps all_worksD(1,4) [OF assms]
      boot_writes_apart [OF assms])

lemma works_ddr_pcap:
  assumes "all_works E C base addr"
  shows "wp (main_ddr_pcap E C) (\<lambda>_ t. failures C t = failures C s) (\<lambda>_. False) s"
  using all_worksD(3) [OF assms, THEN not_sym]
  by (simp add: main_ddr_pcap_def DDRInitCheck_def GetSiliconVersion_def works_simps all_worksD(1-6) [OF assms]
      boot_writes_apart [OF assms])

lemma works_CheckWDTReset:
  assumes "all_works E C base addr"
  shows "wp (CheckWDTReset E C) (\<lambda>_ t. failures C t = failures C s) (\<lambda>_. False) s"
  by (simp add: CheckWDTReset_def GetResetReason_def Let_def works_simps all_worksD(4) [OF assms]
      boot_writes_apart [OF assms])

lemma works_InitWatchDog:
  assumes "all_works E C base addr"
  shows "wp (InitWatchDog D E C) (\<lambda>v t. v = 0 \<and> failures C t = failures C s) (\<lambda>_. False) s"
  by (simp add: InitWatchDog_def ConvertTime_WdtCounter_def Let_def works_simps all_worksD(1-4) [OF assms])

lemma works_watchdog:
  assumes "all_works E C base addr"
  shows "wp (main_watchdog D E C n st) (\<lambda>_ t. failures C t = failures C s) (\<lambda>_. False) s"
  unfolding main_watchdog_def
proof (rule wp_bindI [where P = "\<lambda>_ t. failures C t = failures C s"])
  have wdt: "wp (bind (InitWatchDog D E C) (\<lambda>Status.
        andThen (whenever (Status = XST_FAILURE C) (andThen (OutputStatus E C WDT_INIT_FAIL) (FsblFallback E C n)))
          (ret Status))) (\<lambda>_ t. failures C t = failures C s) (\<lambda>_. False) u"
    if "failures C u = failures C s" for u
    using that all_worksD(3) [OF assms]
    by (auto simp: wp_ret wp_andThen(1) [of "whenever b m" for b m] wp_whenever
        intro!: wp_bindI [OF works_InitWatchDog [OF assms]])
  show "wp (if has_wdt C then andThen (CheckWDTReset E C) (bind (InitWatchDog D E C) (\<lambda>Status.
        andThen (whenever (Status = XST_FAILURE C) (andThen (OutputStatus E C WDT_INIT_FAIL) (FsblFallback E C n)))
          (ret Status))) else ret st) (\<lambda>_ t. failures C t = failures C s) (\<lambda>_. False) s"
    by (auto simp: wp_ret intro!: wp_andThenI [OF works_CheckWDTReset [OF assms]] wdt)
  show "wp (bind (ext E XDcfg_GetControlRegister) (\<lambda>v. andThen (set_gl (\<lambda>g. g\<lparr>PcapCtrlRegVal := v\<rparr>))
      (andThen (whenever (v AND XDCFG_CTRL_PCFG_AES_FUSE_MASK C \<noteq> 0) (whenever (has_wdt C) (invoke E XWdtPs_Stop)))
      (ret w)))) (\<lambda>_ t. failures C t = failures C s) (\<lambda>_. False) t"
    if "failures C t = failures C s" for w t
    using that by (simp add: works_simps all_worksD(1) [OF assms])
qed

lemma works_device:
  assumes "all_works E C base addr" "\<And>h. reads E (BOOT_MODE_REG C) h = boot_mode"
    and "map_of (devices C) (effective_mode C (boot_mode AND BOOT_MODES_MASK C)) = Some (c, m)"
  shows "wp (main_device E C n st)
    (\<lambda>_ t. FlashReadBaseAddress (gl t) = base \<and> failures C t = failures C s) (\<lambda>_. False) s"
proof -
  let ?mode = "effective_mode C (boot_mode AND BOOT_MODES_MASK C)"
  have sel: "wp (select_device E C n ?mode st)
      (\<lambda>_ t. FlashReadBaseAddress (gl t) = base \<and> failures C t = failures C s) (\<lambda>_. False) u"
    if "failures C u = failures C s" for u
    using assms(3) that
    by (auto simp: devices_def select_device_def use_device_def works_simps all_worksD(1,2,7) [OF assms(1)]
        split: if_splits)
  show ?thesis
    by (simp add: main_device_def MarkFSBLIn_def read_boot_mode_def works_simps assms(2) sel
        all_worksD(4) [OF assms(1)] boot_writes_apart [OF assms(1)])
qed

text \<open>The boot ended in \<open>NoReturn c\<close> and no failure was added to those \<open>F\<close>.\<close>

definition ends_in :: "config \<Rightarrow> event list \<Rightarrow> call \<Rightarrow> fsbl \<Rightarrow> bool" where
  "ends_in C F c t \<longleftrightarrow> (\<exists>h. hist t = NoReturn c # h \<and> filter (failure_event C) h = F)"

lemma ends_in_record: "ends_in C F c (record_event (NoReturn c) s) \<longleftrightarrow> failures C s = F"
  by (simp add: ends_in_def failures_def)

lemma works_handoff:
  assumes "all_works E C base addr" "addr \<noteq> 0" "failures C s = F"
  shows "wp (FsblHandoff E C (Suc n) addr) (\<lambda>_ _. False) (ends_in C F (FsblHandoffExit addr)) s"
  unfolding FsblHandoff.simps
proof (rule wp_andThenI [where P = "\<lambda>_ t. failures C t = F"])
  note w = all_worksD [OF assms(1)]
  show "wp (handoff_prepare E C) (\<lambda>_ t. failures C t = F) (ends_in C F (FsblHandoffExit addr)) s"
    using assms(3) by (simp add: handoff_prepare_def works_simps w(1,4) boot_writes_apart [OF assms(1)])
  show "wp (andThen (bind (ext E FsblHookBeforeHandoff) (\<lambda>Status. whenever (Status \<noteq> XST_SUCCESS C)
        (andThen (OutputStatus E C FSBL_HANDOFF_HOOK_FAIL) (FsblFallback E C n))))
      (andThen (handoff_exit E C addr) (FsblFallback E C n)))
    (\<lambda>_ _. False) (ends_in C F (FsblHandoffExit addr)) t" if "failures C t = F" for t
    using assms(2) that
    by (simp add: handoff_exit_def ClearFSBLIn_def works_simps w(1,2,4) wp_OutputStatus [OF w(8)] ends_in_record
        failures_def [symmetric] boot_writes_apart [OF assms(1)])
qed

lemma works_load:
  assumes "all_works E C base addr" "addr \<noteq> 0" "FlashReadBaseAddress (gl s) = base" "failures C s = F"
  shows "wp (main_load E C (Suc n)) (\<lambda>_ _. False) (ends_in C F (FsblHandoffExit addr)) s"
proof -
  have "\<not> (base \<noteq> XPS_QSPI_LINEAR_BASEADDR C \<and> base \<noteq> XPS_NAND_BASEADDR C
      \<and> base \<noteq> XPS_NOR_BASEADDR C \<and> base \<noteq> XPS_SDIO0_BASEADDR C)"
    using assms(1) by (auto simp: all_works_def)
  note valid = if_not_P [OF this]
  show ?thesis
    using assms(3,4)
    by (simp only: main_load_def FsblMeasurePerfTime_def wp_simps valid)
       (simp add: works_simps all_worksD(1,7) [OF assms(1)] works_handoff [OF assms(1,2)]
        del: FsblFallback.simps FsblHandoff.simps)
qed

lemma works_jtag:
  assumes "all_works E C base addr" "\<And>h. reads E (BOOT_MODE_REG C) h = boot_mode"
    and "map_of (devices C) (effective_mode C (boot_mode AND BOOT_MODES_MASK C)) = None"
    and "effective_mode C (boot_mode AND BOOT_MODES_MASK C) = JTAG_MODE C" "failures C s = F"
  shows "wp (main_device E C n st) (\<lambda>_ _. False) (ends_in C F FsblHandoffJtagExit) s"
proof -
  let ?mode = "effective_mode C (boot_mode AND BOOT_MODES_MASK C)"
  have "select_device E C n ?mode st = andThen (jtag_boot E C) (ret st)"
    using assms(3,4) by (auto simp: devices_def select_device_def split: if_splits)
  moreover have "wp (jtag_boot E C) (\<lambda>_ _. False) (ends_in C F FsblHandoffJtagExit) u"
    if "failures C u = F" for u
    using that by (simp add: jtag_boot_def ClearFSBLIn_def works_simps all_worksD(1,2,4) [OF assms(1)]
        boot_writes_apart [OF assms(1)] ends_in_record)
  ultimately show ?thesis
    using assms(5) by (simp add: main_device_def MarkFSBLIn_def read_boot_mode_def works_simps assms(2)
        all_worksD(4) [OF assms(1)] boot_writes_apart [OF assms(1)])
qed

text \<open>A boot that gets as far as the choice of the device.\<close>

lemma works_until_device:
  assumes "all_works E C base addr" "has_ddr C"
    and "\<And>st u. failures C u = failures C s \<Longrightarrow>
      wp (bind (main_device E C n st) (\<lambda>v. andThen (main_load E C n) (ret v))) (\<lambda>_ _. False) R u"
  shows "wp (fsbl_main D E C n) (\<lambda>_ _. False) R s"
proof -
  have R: "wp q Q (\<lambda>_. False) u \<Longrightarrow> wp q Q R u" for q :: "'b op" and Q u by (auto elim: wp_mono)
  show ?thesis
    unfolding fsbl_main_def if_P [OF assms(2)]
    by (intro wp_bindI [OF R [OF works_init [OF assms(1)]]] wp_bindI [OF R [OF works_ddr_pcap [OF assms(1)]]]
        wp_bindI [OF R [OF works_watchdog [OF assms(1)]]] assms(3)) simp
qed

text \<open>
  C9: A boot in which every device works, with or without watchdog, bitstream and UART, ends in
  any boot mode that has a device in the jump to the address the loader returned, and in JTAG mode in
  the wait for the debugger. On the way there it neither reports an error nor falls back: it calls no
  fallback hook and requests no reset.
\<close>

theorem working_boot_reaches_application:
  assumes "all_works E C base addr" "addr \<noteq> 0" "has_ddr C"
    and "\<And>h. reads E (BOOT_MODE_REG C) h = boot_mode"
    and "mode = effective_mode C (boot_mode AND BOOT_MODES_MASK C)"
    and "map_of (devices C) mode \<noteq> None \<or> mode = JTAG_MODE C"
  shows "\<exists>t h. fsbl_main D E C (Suc n) s = Some (Stop t)
    \<and> hist t = NoReturn (if map_of (devices C) mode = None then FsblHandoffJtagExit else FsblHandoffExit addr) # h
    \<and> filter (failure_event C) h = filter (failure_event C) (hist s)"
proof -
  let ?c = "if map_of (devices C) mode = None then FsblHandoffJtagExit else FsblHandoffExit addr"
  let ?R = "ends_in C (failures C s) ?c"
  have "wp (bind (main_device E C (Suc n) st) (\<lambda>v. andThen (main_load E C (Suc n)) (ret v))) (\<lambda>_ _. False) ?R u"
    if u: "failures C u = failures C s" for st u
  proof (cases "map_of (devices C) mode")
    case None
    then show ?thesis
      using assms(5,6) by (auto intro!: wp_bindI [OF works_jtag [OF assms(1,4) _ _ u]])
  next
    case (Some d)
    have R: "wp q Q (\<lambda>_. False) u \<Longrightarrow> wp q Q ?R u" for q :: "'b op" and Q by (auto elim: wp_mono)
    obtain c m where d: "map_of (devices C) (effective_mode C (boot_mode AND BOOT_MODES_MASK C)) = Some (c, m)"
      using Some assms(5) by (cases d) auto
    show ?thesis
      using Some u
      by (intro wp_bindI [OF R [OF works_device [OF assms(1,4) d]]] wp_andThenI [where P = "\<lambda>_ _. False"])
        (simp_all add: works_load [OF assms(1,2)])
  qed
  then have "wp (fsbl_main D E C (Suc n)) (\<lambda>_ _. False) ?R s"
    by (rule works_until_device [OF assms(1,3)])
  from wp_StopD [OF this] show ?thesis
    by (auto simp: ends_in_def failures_def)
qed

section \<open>The watchdog's period\<close>

text \<open>Exact arithmetic in place of \<open>double\<close>; the conversion to \<open>u32\<close> truncates.\<close>

definition exact :: "rat double" where
  "exact = \<lparr>dbl = (\<lambda>w. of_nat (unat w)), ddiv = (/), trunc32 = (\<lambda>q. word_of_int \<lfloor>q\<rfloor>)\<rparr>"

text \<open>
  With the divider 4096 and exact arithmetic, the counter value is the number of whole
  steps of \<open>2^24\<close> watchdog clocks in the requested time: the watchdog expires no later than asked and
  less than one step early.
\<close>

theorem watchdog_period:
  assumes "answer E (XWdtPs_GetControlValue XWDTPS_CLK_PRESCALE) (hist s) = Some (XWDTPS_CCR_PSCALE_4096 C)"
    and "unat seconds * unat (WDT_CLK_FREQ C) div 4096 < 2 ^ 32"
  shows "\<exists>v t. ConvertTime_WdtCounter exact E C seconds s = Some (Ret v t)
    \<and> unat v * 2 ^ 24 \<le> unat seconds * unat (WDT_CLK_FREQ C)
    \<and> unat seconds * unat (WDT_CLK_FREQ C) < (unat v + 1) * 2 ^ 24"
proof -
  let ?n = "unat seconds * unat (WDT_CLK_FREQ C)"
  let ?v = "drop_bit 12 (trunc32 exact (ddiv exact (dbl exact seconds)
    (ddiv exact (dbl exact 4096) (dbl exact (WDT_CLK_FREQ C)))))"
  have "\<lfloor>(of_nat ?n :: rat) / of_nat 4096\<rfloor> = int (?n div 4096)"
    by (rule floor_divide_of_nat_eq)
  then have "trunc32 exact (ddiv exact (dbl exact seconds) (ddiv exact (dbl exact 4096) (dbl exact (WDT_CLK_FREQ C))))
      = of_nat (?n div 4096)"
    by (simp add: exact_def)
  then have "unat ?v = ?n div 4096 div 4096"
    using assms(2) by (simp add: drop_bit_eq_div unat_div unat_of_nat)
  also have "\<dots> = ?n div 2 ^ 24" by (simp add: div_mult2_eq [symmetric])
  finally have v: "unat ?v = ?n div 2 ^ 24" .
  have "?n div 2 ^ 24 * 2 ^ 24 \<le> ?n" "?n < (?n div 2 ^ 24 + 1) * 2 ^ 24"
    using div_mult_mod_eq [of ?n "2 ^ 24"] mod_less_divisor [of "2 ^ 24" ?n] by (simp_all add: algebra_simps)
  moreover have "wp (ConvertTime_WdtCounter exact E C seconds) (\<lambda>v _. v = ?v) (\<lambda>_. False) s"
    using assms(1) by (simp add: ConvertTime_WdtCounter_def Let_def wp_simps)
  ultimately show ?thesis
    using wp_RetD [of "ConvertTime_WdtCounter exact E C seconds" "\<lambda>v _. v = ?v" s] v by fastforce
qed

section \<open>Witnesses\<close>

text \<open>A configuration with the addresses of the Zynq-7000, and hardware that answers.\<close>

definition sample_config :: config where
  "sample_config = \<lparr>XST_SUCCESS = 0, XST_FAILURE = 1, IMAGE_HEADER_CHECKSUM_COUNT = 10,
     IMAGE_WIDTH_CHECK_OFFSET = 0x20, IMAGE_CHECKSUM_OFFSET = 0x48, IMAGE_IDENT_OFFSET = 0x24,
     IMAGE_IDENT = 0x584C4E58, GOLDEN_IMAGE_OFFSET = 0x8000, PCAP_MBOOT_REG_REBOOT_OFFSET_MASK = 0x1FFF,
     BOOT_MODE_REG = 0xF800025C, BOOT_MODES_MASK = 7, QSPI_MODE = 1, NAND_FLASH_MODE = 4,
     NOR_FLASH_MODE = 2, SD_MODE = 5, MMC_MODE = 6, JTAG_MODE = 0,
     REBOOT_STATUS_REG = 0xF8000258, FSBL_FAIL_MASK = 0xF0000000, FSBL_IN_MASK = 0x60000000,
     RESET_REASON_REG = 0xF8000250, RESET_REASON_SWDT = 1, RESET_REASON_CLR = 0xF8000254,
     PS_RST_CTRL_REG = 0xF8000200, PS_RST_MASK = 1, PS_LVL_SHFTR_EN = 0xF8000900, LVL_PL_PS = 0xF,
     FPGA_RESET_REG = 0xF8000240, DcfgBaseAddr = 0xF8007000, XDCFG_MULTIBOOT_ADDR_OFFSET = 0x2C,
     XDCFG_CTRL_PCFG_AES_FUSE_MASK = 0x1000, XDCFG_INT_STS_OFFSET = 0xC, XDCFG_IXR_PCFG_DONE_MASK = 4,
     XPS_DEV_CFG_APB_BASEADDR = 0xF8007000, SILICON_VERSION_1 = 0, STDOUT_BASEADDRESS = 0xE0000000,
     XUARTPS_SR_OFFSET = 0x2C, XUARTPS_SR_TXEMPTY = 8, FSBL_PS7_INIT_SUCCESS = 0,
     DDR_START_ADDR = 0x100000, DDR_TEST_OFFSET = 0x100000, DDR_TEST_PATTERN = 0xAA55AA55,
     XPS_QSPI_LINEAR_BASEADDR = 0xFC000000, XPS_NAND_BASEADDR = 0xE1000000, XPS_NOR_BASEADDR = 0xE2000000,
     XPS_SDIO0_BASEADDR = 0xE0100000, NAND_FLASH_SIZE = 0x10000000, NOR_FLASH_SIZE = 0x2000000,
     XWDTPS_CCR_PSCALE_0008 = 0, XWDTPS_CCR_PSCALE_0064 = 1, XWDTPS_CCR_PSCALE_4096 = 3,
     WDT_CLK_FREQ = 111111115, has_ddr = True, has_wdt = True, has_qspi = True, has_nand = True,
     has_sd = True, has_stdout = True, has_uart = True, mmc_support = False, rsa_support = False,
     post_config = False, non_ps_bitstream = False, FSBL_PERF = False\<rparr>"

definition sample_env :: "u32 \<Rightarrow> bool \<Rightarrow> u32 option \<Rightarrow> env" where
  "sample_env mode resetting hook = \<lparr>
     reads = (\<lambda>a h. if a = 0xF800025C then mode else if a = 0xE000002C then 8
        else if a = 0x100000 \<or> a = 0x200000 then 0xAA55AA55 else last_written 0x60010000 a h),
     resets = (\<lambda>a v h. resetting \<and> a = 0xF8000200 \<and> v = 1),
     answer = (\<lambda>c h. if c = LoadBootImage then Some 0x100000 else if c = FsblHandoffExit 0x100000 \<or> c = FsblHandoffJtagExit then None
        else if c = FsblHookFallback then hook else Some 0),
     effect = (\<lambda>c h g. if c \<in> {InitQspi, InitNand, InitNor, InitSD ''BOOT.BIN''}
        then g\<lparr>FlashReadBaseAddress := 0xE0100000\<rparr> else g),
     moved = (\<lambda>m h a old. sample_flash a), junk = 0\<rparr>"

definition sample_state :: fsbl where
  "sample_state = \<lparr>gl = \<lparr>FlashReadBaseAddress = 0xE2000000, Silicon_Version = 2, LinearBootDeviceFlag = 0,
     PcapCtrlRegVal = 0, SystemInitFlag = 0, MoveImage = None, BitstreamFlag = 0, QspiFlashSize = 0\<rparr>, hist = []\<rparr>"

lemma sample_all_works: "all_works (sample_env mode resetting hook) sample_config 0xE0100000 0x100000"
  by (simp add: all_works_def boot_writes_def sample_env_def sample_config_def uart_empties_def)

theorem working_boot_reaches_application_witness:
  "(\<exists>t h. fsbl_main exact (sample_env 5 True None) sample_config 1 sample_state = Some (Stop t)
      \<and> hist t = NoReturn (FsblHandoffExit 0x100000) # h \<and> filter (failure_event sample_config) h = [])
   \<and> (\<exists>t h. fsbl_main exact (sample_env 0 True None) sample_config 1 sample_state = Some (Stop t)
      \<and> hist t = NoReturn FsblHandoffJtagExit # h \<and> filter (failure_event sample_config) h = [])"
  using working_boot_reaches_application [OF sample_all_works, of 5 True None 5 5 exact 0 sample_state]
    working_boot_reaches_application [OF sample_all_works, of 0 True None 0 0 exact 0 sample_state]
  by (simp add: sample_env_def sample_config_def devices_def effective_mode_def sample_state_def)

lemma sample_storage: "storage (sample_env mode False hook) 0x60010000 (REBOOT_STATUS_REG sample_config)"
  by (simp add: storage_def sample_env_def sample_config_def)

lemma sample_can_reset: "can_reset (sample_env mode True hook) sample_config"
  by (simp add: can_reset_def sample_env_def sample_config_def multiboot_reg_def)

lemma sample_uart: "uart_empties (sample_env mode resetting hook) sample_config"
  by (simp add: uart_empties_def sample_env_def sample_config_def)

lemma sample_config_offset_field: "offset_field sample_config 13"
  using sample_offset_field by (simp add: offset_field_def sample_config_def sample_consts_def)

theorem mark_then_clear_witness:
  "\<exists>t u. MarkFSBLIn (sample_env 5 False None) sample_config sample_state = Some (Ret () t)
    \<and> ClearFSBLIn (sample_env 5 False None) sample_config t = Some (Ret () u)
    \<and> last_written 0x60010000 0xF8000258 (hist u) = 0x00010000"
  using mark_then_clear [OF sample_storage, of 5 None sample_state]
  by (auto simp: sample_config_def sample_state_def)

theorem wdt_reset_status_lost_witness:
  "\<exists>t. CheckWDTReset (sample_env 5 False None) sample_config sample_state = Some (Ret () t)
    \<and> last_written 0x60010000 0xF8000258 (hist t) = 0"
  using wdt_reset_status_lost [OF sample_storage refl, of sample_state 5 None]
  by (auto simp: sample_config_def sample_state_def)

theorem boot_mode_without_fallback_gives_up_witness:
  "\<exists>t. FsblFallback (sample_env 5 False None) sample_config 1 sample_state = Some (Stop t)
    \<and> hd (hist t) = NoReturn FsblHookFallback"
  using boot_mode_without_fallback_gives_up [of "sample_env 5 False None" sample_config sample_state 0]
  by (auto simp: sample_env_def sample_config_def)

theorem exception_resets_witness:
  "\<exists>t. exception_handler (sample_env 4 True None) sample_config 1 Data_Abort_Handler sample_state = Some (Stop t)
    \<and> hd (hist t) = Write 0xF8000200 1"
proof -
  have "reads (sample_env 4 True None) (BOOT_MODE_REG sample_config) h AND BOOT_MODES_MASK sample_config
      \<in> {QSPI_MODE sample_config, NAND_FLASH_MODE sample_config, NOR_FLASH_MODE sample_config}" for h
    by (simp add: sample_env_def sample_config_def)
  from exception_resets [OF sample_can_reset sample_uart _ _ this, of sample_state 0 Data_Abort_Handler]
  show ?thesis by (auto simp: sample_config_def sample_state_def)
qed

theorem boot_mode_selects_device_witness:
  "\<exists>v t. select_device (sample_env 5 False None) sample_config 1 5 0 sample_state = Some (Ret v t)
    \<and> MoveImage (gl t) = Some SDAccess"
  using boot_mode_selects_device [of sample_config 5 "InitSD ''BOOT.BIN''" SDAccess "sample_env 5 False None"
      sample_state 1 0]
  by (auto simp: sample_env_def sample_config_def devices_def)

definition nand_fails :: env where
  "nand_fails = (sample_env 4 True None)\<lparr>answer := \<lambda>c h. if c = InitNand then Some 1 else Some 0,
     effect := \<lambda>_ _. id\<rparr>"

lemma nand_fails_env: "can_reset nand_fails sample_config" "uart_empties nand_fails sample_config"
  "answer nand_fails InitNand h = Some 1" "effect nand_fails c h g = g"
  "reads nand_fails (BOOT_MODE_REG sample_config) h = 4"
  by (simp_all add: nand_fails_def can_reset_def uart_empties_def sample_env_def sample_config_def
      multiboot_reg_def)

theorem nand_failure_resets_witness:
  "\<exists>t h. select_device nand_fails sample_config 1 4 0 sample_state = Some (Stop t)
    \<and> hist t = Write (PS_RST_CTRL_REG sample_config) (PS_RST_MASK sample_config) # h"
proof -
  have c: "has_nand sample_config" "4 = NAND_FLASH_MODE sample_config" "4 \<noteq> QSPI_MODE sample_config"
    "(1 :: u32) \<noteq> XST_SUCCESS sample_config" "(4 :: u32) AND BOOT_MODES_MASK sample_config = 4"
    "Silicon_Version (gl sample_state) \<noteq> SILICON_VERSION_1 sample_config"
    "PcapCtrlRegVal (gl sample_state) AND XDCFG_CTRL_PCFG_AES_FUSE_MASK sample_config = 0"
    by (simp_all add: sample_config_def sample_state_def)
  show ?thesis
    using nand_failure_resets [OF c(1,2) _ nand_fails_env(3) c(4) nand_fails_env(4,1,2) c(6,7), of 0 0]
    by (auto simp: nand_fails_env(5) c(3,5))
qed

definition small_nor :: config where
  "small_nor = sample_config\<lparr>NOR_FLASH_SIZE := 0x20000\<rparr>"

lemma small_nor_fields:
  "offset_field small_nor 13" "places small_nor 0x20000 = 4" "GOLDEN_IMAGE_OFFSET small_nor = 0x8000"
  "XST_SUCCESS small_nor = 0" "XST_FAILURE small_nor = 1" "multiboot_reg small_nor = 0xF800702C"
  "boot_device_size small_nor (gl sample_state) = 0x20000"
proof -
  show "offset_field small_nor 13"
    using sample_config_offset_field by (simp add: offset_field_def small_nor_def)
  show "places small_nor 0x20000 = 4" "GOLDEN_IMAGE_OFFSET small_nor = 0x8000"
    "XST_SUCCESS small_nor = 0" "XST_FAILURE small_nor = 1" "multiboot_reg small_nor = 0xF800702C"
    "boot_device_size small_nor (gl sample_state) = 0x20000"
    by (simp_all add: small_nor_def sample_config_def places_def multiboot_reg_def boot_device_size_def
        sample_state_def Let_def)
qed

lemma small_nor_images:
  "\<not> valid_image small_nor (\<lambda>a _. sample_flash a) 0 0x8000" "valid_image small_nor (\<lambda>a _. sample_flash a) 0 0x10000"
  by (simp_all add: valid_image_def ImageCheckID_def HeaderChecksum_def checksum_loop.simps small_nor_def
      sample_config_def sample_flash_def Let_def)

theorem next_image_found_witness:
  "\<exists>v t. NextValidImageCheck (sample_env 5 False None) small_nor
      (sample_state\<lparr>hist := [Write 0xF800702C 1]\<rparr>) = Some (Ret v t)
    \<and> v = 0 \<and> hist t = [Write 0xF800702C 2, Read 0xF800702C 1, Write 0xF800702C 1]"
proof -
  let ?s = "sample_state\<lparr>hist := [Write 0xF800702C 1]\<rparr>" and ?E = "sample_env 5 False None"
  have mb: "1 = reads ?E (multiboot_reg small_nor) (hist ?s)"
    by (simp add: small_nor_fields(6) sample_env_def)
  have other: "moved ?E m h = (\<lambda>a _. sample_flash a)" "junk ?E = 0" "\<not> resets ?E a v h" for m h a v
    by (simp_all add: sample_env_def fun_eq_iff)
  have range: "[Suc 0..<4] = [1, 2, 3]" by (simp add: upt_conv_Cons)
  have f: "field 13 1 = Suc 0" by (simp add: field_def)
  show ?thesis
    using next_image_found [OF small_nor_fields(1) _ other(3) _ mb refl] small_nor_images
    by (simp add: small_nor_fields other(1,2) range f)
qed

theorem next_image_search_never_ends_witness:
  "NextValidImageCheck ((sample_env 4 False None)\<lparr>moved := \<lambda>_ _ _ _. 0\<rparr>) sample_config
     (sample_state\<lparr>gl := (gl sample_state)\<lparr>FlashReadBaseAddress := 0xE1000000\<rparr>\<rparr>) = None"
proof (rule next_image_search_never_ends [OF sample_config_offset_field])
  show "(2 ^ 13 - 1) * unat (GOLDEN_IMAGE_OFFSET sample_config) < unat (boot_device_size sample_config
      (gl (sample_state\<lparr>gl := (gl sample_state)\<lparr>FlashReadBaseAddress := 0xE1000000\<rparr>\<rparr>)))"
    by (simp add: boot_device_size_def sample_config_def Let_def)
  show "\<not> valid_image sample_config (moved ((sample_env 4 False None)\<lparr>moved := \<lambda>_ _ _ _. 0\<rparr>) m h) j off" for m h j off
    by (simp add: valid_image_def ImageCheckID_def sample_config_def)
qed

theorem watchdog_period_witness:
  "\<exists>v t. ConvertTime_WdtCounter exact ((sample_env 5 False None)\<lparr>answer := \<lambda>_ _. Some 3\<rparr>) sample_config 100 sample_state
      = Some (Ret v t) \<and> unat v * 2 ^ 24 \<le> 11111111500 \<and> 11111111500 < (unat v + 1) * 2 ^ 24"
  using watchdog_period [of "(sample_env 5 False None)\<lparr>answer := \<lambda>_ _. Some 3\<rparr>" sample_state sample_config 100]
  by (simp add: sample_config_def)

end
