(* ===== verification/FsblRecovery.thy ===== *)
theory FsblRecovery
  imports FsblOutcome
begin

text \<open>
  The recovery of the first stage boot loader. With the AES key in the fuses \<open>FsblFallback\<close> does not reset
  but looks for the next image itself and hands over to it, and \<open>FsblHandoff\<close> falls back again when
  the application comes back: here it is shown that this recursion ends, with a bound for the depth of
  calls, and that it starts the next valid image. \<open>holds\<close> is the calculus of conditions that an operation
  keeps, which \<open>FsblEnds\<close> extends to the whole of \<open>main\<close>.
\<close>

section \<open>Where control may end\<close>

text \<open>The calls that may keep control, and the events after which the boot loader has ended.\<close>

definition exits :: "call \<Rightarrow> bool" where
  "exits c = (case c of FsblHookFallback \<Rightarrow> True | FsblHandoffJtagExit \<Rightarrow> True | FsblHandoffExit a \<Rightarrow> True | _ \<Rightarrow> False)"

definition ended :: "config \<Rightarrow> fsbl \<Rightarrow> bool" where
  "ended C s =
     (case hist s of
        Write a v # _ \<Rightarrow> a = PS_RST_CTRL_REG C \<and> v = PS_RST_MASK C
      | NoReturn c # _ \<Rightarrow> exits c
      | _ \<Rightarrow> False)"

text \<open>A flash in which every place for an image is below the last offset of the register's field of \<open>m\<close> bits.\<close>

definition size_ok :: "nat \<Rightarrow> config \<Rightarrow> globals \<Rightarrow> bool" where
  "size_ok m C g \<longleftrightarrow> unat (boot_device_size C g) \<le> (2 ^ m - 1) * unat (GOLDEN_IMAGE_OFFSET C)"

definition flash_ok :: "nat \<Rightarrow> config \<Rightarrow> globals \<Rightarrow> bool" where
  "flash_ok m C g \<longleftrightarrow> Silicon_Version g \<noteq> SILICON_VERSION_1 C \<and> size_ok m C g"

text \<open>
  The multiboot register is storage of its own and exactly the reset register resets; no call leads to
  1.0 silicon or to a flash that the field cannot address; the UART drains; only the exits keep
  control, and the fallback hook does.
\<close>

definition steady :: "env \<Rightarrow> config \<Rightarrow> u32 \<Rightarrow> nat \<Rightarrow> bool" where
  "steady E C init m \<longleftrightarrow>
     (\<forall>h. reads E (multiboot_reg C) h = last_written init (multiboot_reg C) h)
   \<and> (\<forall>a v h. resets E a v h = (a = PS_RST_CTRL_REG C \<and> v = PS_RST_MASK C))
   \<and> multiboot_reg C \<notin> {REBOOT_STATUS_REG C, PS_LVL_SHFTR_EN C, FPGA_RESET_REG C, RESET_REASON_CLR C,
        DDR_START_ADDR C, DDR_START_ADDR C + DDR_TEST_OFFSET C, 0xE0000000}
   \<and> (\<forall>c h g. size_ok m C g \<longrightarrow> size_ok m C (effect E c h g))
   \<and> (\<forall>c h g. Silicon_Version g \<noteq> SILICON_VERSION_1 C \<longrightarrow> Silicon_Version (effect E c h g) \<noteq> SILICON_VERSION_1 C)
   \<and> (\<forall>h. answer E XDcfg_GetPsVersion h \<noteq> Some (SILICON_VERSION_1 C))
   \<and> uart_empties E C
   \<and> (\<forall>c h. answer E c h = None \<longrightarrow> exits c) \<and> (\<forall>h. answer E FsblHookFallback h = None)
   \<and> XST_SUCCESS C \<noteq> XST_FAILURE C"

lemma steadyD:
  assumes "steady E C init m"
  shows "reads E (multiboot_reg C) h = last_written init (multiboot_reg C) h"
    "resets E a v h = (a = PS_RST_CTRL_REG C \<and> v = PS_RST_MASK C)"
    "multiboot_reg C \<noteq> REBOOT_STATUS_REG C" "REBOOT_STATUS_REG C \<noteq> multiboot_reg C"
    "PS_LVL_SHFTR_EN C \<noteq> multiboot_reg C" "FPGA_RESET_REG C \<noteq> multiboot_reg C"
    "RESET_REASON_CLR C \<noteq> multiboot_reg C" "DDR_START_ADDR C \<noteq> multiboot_reg C"
    "DDR_START_ADDR C + DDR_TEST_OFFSET C \<noteq> multiboot_reg C" "0xE0000000 \<noteq> multiboot_reg C"
    "answer E XDcfg_GetPsVersion h \<noteq> Some (SILICON_VERSION_1 C)"
    "uart_empties E C" "answer E c h = None \<Longrightarrow> exits c" "answer E FsblHookFallback h = None"
    "XST_FAILURE C \<noteq> XST_SUCCESS C"
  using assms by (simp_all add: steady_def) metis+

text \<open>A condition on the global variables that every call keeps.\<close>

definition preserves :: "env \<Rightarrow> (globals \<Rightarrow> bool) \<Rightarrow> bool" where
  "preserves E I \<longleftrightarrow> (\<forall>c h g. I g \<longrightarrow> I (effect E c h g))"

lemma steady_preserves:
  assumes "steady E C init m"
  shows "preserves E (size_ok m C)" "preserves E (flash_ok m C)"
  using assms by (simp_all add: preserves_def steady_def flash_ok_def)

section \<open>Conditions that an operation keeps\<close>

text \<open>A condition on the global variables, and the value \<open>v\<close> in the multiboot register.\<close>

definition place :: "(globals \<Rightarrow> bool) \<Rightarrow> config \<Rightarrow> u32 \<Rightarrow> u32 \<Rightarrow> fsbl \<Rightarrow> bool" where
  "place I C init v s \<longleftrightarrow> I (gl s) \<and> last_written init (multiboot_reg C) (hist s) = v"

text \<open>The operation ends; where it returns the condition still holds.\<close>

definition holds :: "config \<Rightarrow> (fsbl \<Rightarrow> bool) \<Rightarrow> 'a op \<Rightarrow> bool" where
  "holds C P m \<longleftrightarrow> (\<forall>s. P s \<longrightarrow> wp m (\<lambda>_. P) (ended C) s)"

named_theorems holds_intros "operations that keep a condition"

lemma holdsD: "holds C P m \<Longrightarrow> P s \<Longrightarrow> wp m (\<lambda>_. P) (ended C) s"
  by (simp add: holds_def)

lemma holds_next:
  assumes "holds C P m" "P s" "\<And>v t. P t \<Longrightarrow> wp (f v) Q (ended C) t"
  shows "wp (bind m f) Q (ended C) s"
  by (rule wp_bindI [OF holdsD [OF assms(1,2)] assms(3)])

lemma holds_bind [holds_intros]: "holds C P m \<Longrightarrow> (\<And>v. holds C P (f v)) \<Longrightarrow> holds C P (bind m f)"
  unfolding holds_def by (blast intro: wp_bindI)

lemma holds_andThen [holds_intros]: "holds C P m \<Longrightarrow> holds C P m' \<Longrightarrow> holds C P (andThen m m')"
  unfolding andThen_def by (rule holds_bind)

lemma holds_ret [holds_intros]: "holds C P (ret v)" "holds C P (get f)"
  by (simp_all add: holds_def wp_ret wp_get)

lemma holds_if [holds_intros]: "(b \<Longrightarrow> holds C P m) \<Longrightarrow> (\<not> b \<Longrightarrow> holds C P m') \<Longrightarrow> holds C P (if b then m else m')"
  by simp

lemma holds_whenever [holds_intros]: "holds C P m \<Longrightarrow> holds C P (whenever b m)"
  unfolding whenever_def by (intro holds_intros)

lemma holds_steps [holds_intros]: "holds C P (steps [])" "holds C P m \<Longrightarrow> holds C P (steps ms) \<Longrightarrow> holds C P (steps (m # ms))"
  by (simp_all add: steps.simps holds_ret holds_andThen)

lemma holds_In32 [holds_intros]: "holds C (place I C init v) (Xil_In32 E a)"
  by (simp add: holds_def wp_In32 place_def)

lemma holds_set_gl: "(\<And>g. I g \<Longrightarrow> I (f g)) \<Longrightarrow> holds C (place I C init v) (set_gl f)"
  by (simp add: holds_def wp_set_gl place_def)

lemma ended_write: "steady E C init m \<Longrightarrow> resets E a x h \<Longrightarrow> hist s = Write a x # h' \<Longrightarrow> ended C s"
  by (simp add: ended_def steadyD(2))

lemma ended_call: "steady E C init m \<Longrightarrow> answer E c h = None \<Longrightarrow> hist s = NoReturn c # h' \<Longrightarrow> ended C s"
  using steadyD(13) [of E C init m c h] by (simp add: ended_def)

lemma holds_Out32:
  assumes "steady E C init m" "a \<noteq> multiboot_reg C"
  shows "holds C (place I C init v) (Xil_Out32 E a x)"
  using assms by (auto simp: holds_def wp_Out32 place_def intro: ended_write)

lemma holds_ext:
  assumes "steady E C init m" "preserves E I"
  shows "holds C (place I C init v) (ext E c)" "holds C (place I C init v) (invoke E c)"
proof -
  show "holds C (place I C init v) (ext E c)"
    using assms by (auto simp: holds_def wp_ext place_def preserves_def intro: ended_call split: option.split)
  then show "holds C (place I C init v) (invoke E c)"
    unfolding invoke_def by (intro holds_intros)
qed

lemma holds_OutputStatus:
  assumes "steady E C init m"
  shows "holds C (place I C init v) (OutputStatus E C code)"
  using steadyD(12) [OF assms] by (simp add: holds_def wp_OutputStatus place_def after_status_def Let_def)

lemma holds_status_register:
  assumes "steady E C init m"
  shows "holds C (place I C init v) (ClearFSBLIn E C)" "holds C (place I C init v) (MarkFSBLIn E C)"
  unfolding ClearFSBLIn_def MarkFSBLIn_def
  by (intro holds_intros holds_Out32 [OF assms] steadyD(4) [OF assms])+

lemma holds_handoff:
  assumes "steady E C init m" "preserves E I"
  shows "holds C (place I C init v) (handoff_prepare E C)" "holds C (place I C init v) (handoff_exit E C a)"
  unfolding handoff_prepare_def handoff_exit_def
  by (intro holds_intros holds_Out32 [OF assms(1)] holds_ext [OF assms] holds_OutputStatus [OF assms(1)]
      holds_status_register [OF assms(1)] steadyD(5,6) [OF assms(1)])+

lemma give_up_stops:
  assumes "steady E C init m"
  shows "wp (give_up E C) Q (ended C) s"
  using steadyD(2) [OF assms] steadyD(14) [OF assms]
  by (auto simp: give_up_def ClearFSBLIn_def wp_simps ended_def exits_def)

section \<open>The multiboot register moves on\<close>

text \<open>\<open>FsblFallback\<close> moves one place on, the search to the next valid image.\<close>

lemma notify_moves_on:
  assumes "steady E C init m" "place (flash_ok m C) C init v s"
  shows "wp (fallback_notify E C) (\<lambda>_. place (flash_ok m C) C init (v + 1)) (ended C) s"
proof -
  note w = steadyD [OF assms(1)]
  have mark: "holds C (place (flash_ok m C) C init x)
      (bind (Xil_In32 E (REBOOT_STATUS_REG C)) (\<lambda>r. Xil_Out32 E (REBOOT_STATUS_REG C) (r OR FSBL_FAIL_MASK C)))" for x
    by (intro holds_intros holds_Out32 [OF assms(1)] w(4))
  have update: "wp (Update_MultiBootRegister E C) (\<lambda>_. place (flash_ok m C) C init (v + 1)) (ended C) t"
    if "place (flash_ok m C) C init v t" for t
    using that by (auto simp: Update_MultiBootRegister_def wp_simps place_def flash_ok_def w(1) intro: ended_write [OF assms(1)])
  have rest: "wp (steps [whenever b (give_up E C), Update_MultiBootRegister E C,
        bind (Xil_In32 E (REBOOT_STATUS_REG C)) (\<lambda>r. Xil_Out32 E (REBOOT_STATUS_REG C) (r OR FSBL_FAIL_MASK C)),
        invoke E dsb_isb]) (\<lambda>_. place (flash_ok m C) C init (v + 1)) (ended C) t"
    if "place (flash_ok m C) C init v t" for t b
  proof -
    have first: "wp (whenever b (give_up E C)) (\<lambda>_. place (flash_ok m C) C init v) (ended C) t"
      using that by (simp add: wp_whenever give_up_stops [OF assms(1)])
    have last: "holds C (place (flash_ok m C) C init (v + 1)) (steps [bind (Xil_In32 E (REBOOT_STATUS_REG C))
        (\<lambda>r. Xil_Out32 E (REBOOT_STATUS_REG C) (r OR FSBL_FAIL_MASK C)), invoke E dsb_isb])"
      by (intro holds_intros mark holds_ext [OF assms(1) steady_preserves(2) [OF assms(1)]])
    show ?thesis
      unfolding steps.simps(2) [of "whenever b m" for m] steps.simps(2) [of "Update_MultiBootRegister E C"]
      by (rule wp_andThenI [OF first], rule wp_andThenI [OF update], assumption, rule holdsD [OF last])
  qed
  show ?thesis
    unfolding fallback_notify_def
  proof (rule holds_next [where P = "place (flash_ok m C) C init v", OF _ assms(2)])
    show "holds C (place (flash_ok m C) C init v) (read_boot_mode E C)"
      unfolding read_boot_mode_def by (intro holds_intros)
  qed (rule rest)
qed

lemma field_add:
  assumes "m \<le> 32" "field m mb + d < 2 ^ m"
  shows "field m (mb + of_nat d) = field m mb + d"
  using assms(2)
proof (induction d)
  case 0
  then show ?case by simp
next
  case (Suc d)
  then have "field m (mb + of_nat d + 1) = Suc (field m (mb + of_nat d))"
    by (intro field_Suc [OF assms(1)]) simp
  with Suc show ?case by (simp add: algebra_simps)
qed

text \<open>A value of the multiboot register at the offset \<open>k\<close> or after it, with an offset to come.\<close>

definition from_place :: "nat \<Rightarrow> nat \<Rightarrow> u32 \<Rightarrow> bool" where
  "from_place m k v \<longleftrightarrow> k \<le> field m v \<and> Suc (field m v) < 2 ^ m"

lemma search_moves_on:
  assumes "steady E C init m" "offset_field C m" "place (flash_ok m C) C init v s"
  shows "wp (NextValidImageCheck E C)
    (\<lambda>r t. r = XST_SUCCESS C \<longrightarrow> (\<exists>v'. place (flash_ok m C) C init v' t \<and> from_place m (field m v) v')) (ended C) s"
proof -
  let ?h = "Read (multiboot_reg C) v # hist s"
  let ?f = "find (\<lambda>n. valid_image C (moved E (MoveImage (gl s)) ?h) (junk E) (of_nat (n * unat (GOLDEN_IMAGE_OFFSET C))))
        [field m v..<places C (boot_device_size C (gl s))]"
  note w = steadyD [OF assms(1)]
  have v: "last_written init (multiboot_reg C) (hist s) = v" and ok: "flash_ok m C (gl s)" using assms(3) by (simp_all add: place_def)
  have g: "0 < unat (GOLDEN_IMAGE_OFFSET C)" and m: "m \<le> 32" using assms(2) by (simp_all add: offset_field_def)
  have search: "image_search C (moved E (MoveImage (gl s)) ?h) (junk E) (boot_device_size C (gl s)) v =
      Some (map_option (\<lambda>n. v + of_nat (n - field m v)) ?f)"
    using image_search_finds_first [OF assms(2)] ok by (simp add: flash_ok_def size_ok_def)
  have found: "from_place m (field m v) (v + of_nat (n - field m v))" if "?f = Some n" for n
  proof -
    have n: "field m v \<le> n" "n < places C (boot_device_size C (gl s))"
      using that unfolding find_Some_iff by auto
    then have "n * unat (GOLDEN_IMAGE_OFFSET C) < (2 ^ m - 1) * unat (GOLDEN_IMAGE_OFFSET C)"
      using less_places [OF g, of n] ok by (meson flash_ok_def size_ok_def order_less_le_trans)
    then have "n < 2 ^ m - 1" by simp
    then have "Suc n < 2 ^ m" by linarith
    with n field_add [OF m, of v "n - field m v"] show ?thesis by (simp add: from_place_def)
  qed
  show ?thesis
    using search found ok v w(15)
    by (cases ?f)
       (auto simp: NextValidImageCheck_def wp_simps w(1) wp_search_image place_def intro: ended_write [OF assms(1)])
qed

section \<open>The recursion ends\<close>

lemma handoff_stops:
  assumes "steady E C init m" "preserves E I" "place I C init v s"
    and "\<And>t Q. place I C init v t \<Longrightarrow> wp (FsblFallback E C n) Q (ended C) t"
  shows "wp (FsblHandoff E C (Suc n) a) Q (ended C) s"
proof -
  have fall: "holds C (place I C init v) (FsblFallback E C n)" using assms(4) by (simp add: holds_def)
  have "holds C (place I C init v) (bind (ext E FsblHookBeforeHandoff) (\<lambda>Status. whenever (Status \<noteq> XST_SUCCESS C)
      (andThen (OutputStatus E C FSBL_HANDOFF_HOOK_FAIL) (FsblFallback E C n))))"
    by (intro holds_intros holds_ext [OF assms(1,2)] holds_OutputStatus [OF assms(1)] fall)
  note parts = holds_handoff(1) [OF assms(1,2)] this holds_handoff(2) [OF assms(1,2)]
  show ?thesis
    unfolding FsblHandoff.simps andThen_def [of "handoff_prepare E C"] andThen_def [of "handoff_exit E C a"]
      andThen_def [of "bind m f" for m f]
    by (rule holds_next [OF parts(1) assms(3)], rule holds_next [OF parts(2)], assumption,
        rule holds_next [OF parts(3)], assumption, rule assms(4))
qed

lemma next_image_moves_on:
  assumes "steady E C init m" "offset_field C m" "place (flash_ok m C) C init v s"
  shows "wp (fallback_next_image E C)
    (\<lambda>_ t. \<exists>v'. place (flash_ok m C) C init v' t \<and> from_place m (field m v) v') (ended C) s"
proof -
  let ?P = "\<lambda>t. \<exists>v'. place (flash_ok m C) C init v' t \<and> from_place m (field m v) v'"
  note ext = holds_ext [OF assms(1) steady_preserves(2) [OF assms(1)]]
  have checked: "holds C (place (flash_ok m C) C init v)
      (bind (ext E FabricInit) (\<lambda>Status. whenever (Status \<noteq> XST_SUCCESS C) (give_up E C)))"
    by (intro holds_intros ext) (simp add: holds_def give_up_stops [OF assms(1)])
  have search: "wp (bind (NextValidImageCheck E C) (\<lambda>Status. whenever (Status \<noteq> XST_SUCCESS C) (give_up E C)))
      (\<lambda>_. ?P) (ended C) t" if "place (flash_ok m C) C init v t" for t
    by (rule wp_bindI [OF search_moves_on [OF assms(1,2) that]]) (simp add: wp_whenever give_up_stops [OF assms(1)])
  have load: "wp (ext E LoadBootImage) (\<lambda>_. ?P) (ended C) t" if t: "?P t" for t
  proof -
    obtain v' where v': "place (flash_ok m C) C init v' t" "from_place m (field m v) v'" using t by blast
    show ?thesis
      by (rule wp_mono [OF holdsD [OF ext(1) v'(1)]]) (use v'(2) in auto)
  qed
  have rsa: "holds C (place (flash_ok m C) C init v) (whenever (rsa_support C) (invoke E SetPpk))"
    by (intro holds_intros ext)
  show ?thesis
    unfolding fallback_next_image_def andThen_def
    by (rule holds_next [OF checked assms(3)], rule holds_next [OF rsa], assumption,
        rule wp_bindI [OF search], assumption, rule load)
qed

lemma fallback_stops:
  assumes "steady E C init m" "offset_field C m" "place (flash_ok m C) C init v s"
    and "Suc (field m v) < 2 ^ m" "2 * (2 ^ m - field m v) \<le> n"
  shows "wp (FsblFallback E C n) Q (ended C) s"
  using assms(3-)
proof (induction "2 ^ m - field m v" arbitrary: v s n Q rule: less_induct)
  case less
  obtain k where n: "n = Suc (Suc k)" using less.prems(2,3) by (cases n; cases "n - 1") auto
  have m: "m \<le> 32" using assms(2) by (simp add: offset_field_def)
  have v1: "field m (v + 1) = Suc (field m v)" using field_Suc [OF m] less.prems(2) by simp
  have hand: "wp (FsblHandoff E C (Suc k) a) Q' (ended C) t"
    if "place (flash_ok m C) C init v' t" "from_place m (Suc (field m v)) v'" for v' t a Q'
  proof (rule handoff_stops [OF assms(1) steady_preserves(2) [OF assms(1)] that(1)])
    fix u Q'' assume u: "place (flash_ok m C) C init v' u"
    show "wp (FsblFallback E C k) Q'' (ended C) u"
    proof (rule less.hyps [OF _ u])
      show "2 ^ m - field m v' < 2 ^ m - field m v" "2 * (2 ^ m - field m v') \<le> k" "Suc (field m v') < 2 ^ m"
        using less.prems(2,3) that(2) n unfolding from_place_def by linarith+
    qed
  qed
  have recover: "wp (bind (fallback_next_image E C) (FsblHandoff E C (Suc k))) Q' (ended C) t"
    if "place (flash_ok m C) C init (v + 1) t" for t Q'
    by (rule wp_bindI [OF next_image_moves_on [OF assms(1,2) that]]) (use hand v1 in auto)
  have reset: "wp (Xil_Out32 E (PS_RST_CTRL_REG C) (PS_RST_MASK C)) Q' (ended C) t" for t Q'
    by (simp add: wp_Out32 steadyD(2) [OF assms(1)] ended_def)
  show ?case
    unfolding n FsblFallback.simps
  proof (rule wp_andThenI [OF notify_moves_on [OF assms(1) less.prems(1)]])
    fix r t assume t: "place (flash_ok m C) C init (v + 1) t"
    show "wp (andThen (bind (get PcapCtrlRegVal) (\<lambda>v. whenever (v AND XDCFG_CTRL_PCFG_AES_FUSE_MASK C \<noteq> 0)
          (bind (get SystemInitFlag) (\<lambda>flag. if flag = 1
             then bind (fallback_next_image E C) (\<lambda>HandoffAddr. FsblHandoff E C (Suc k) HandoffAddr)
             else give_up E C)))) (Xil_Out32 E (PS_RST_CTRL_REG C) (PS_RST_MASK C))) Q (ended C) t"
      by (rule wp_andThenI [where P = "\<lambda>_ _. True", OF _ reset])
         (simp only: wp_bind [of "get f" for f] wp_get wp_whenever wp_if recover [OF t] give_up_stops [OF assms(1)], simp)
  qed
qed


section \<open>The next image starts\<close>

text \<open>
  Every call succeeds and leaves the global variables alone, the loader returns the application at
  \<open>addr\<close>, which does not return, the UART drains, no register of the path resets the system, and the
  flash holds the same words whenever it is read.
\<close>

definition recoverable :: "env \<Rightarrow> config \<Rightarrow> u32 \<Rightarrow> u32 \<Rightarrow> (u32 \<Rightarrow> u32 \<Rightarrow> u32) \<Rightarrow> bool" where
  "recoverable E C init addr rd \<longleftrightarrow>
     (\<forall>c h. answer E c h = (if c = LoadBootImage then Some addr else if c = FsblHandoffExit addr then None
        else Some (XST_SUCCESS C)))
   \<and> (\<forall>c h g. effect E c h g = g) \<and> (\<forall>mv h. moved E mv h = rd) \<and> uart_empties E C
   \<and> (\<forall>h. reads E (multiboot_reg C) h = last_written init (multiboot_reg C) h)
   \<and> (\<forall>a v h. a \<noteq> PS_RST_CTRL_REG C \<longrightarrow> \<not> resets E a v h)
   \<and> PS_RST_CTRL_REG C \<notin> {multiboot_reg C, REBOOT_STATUS_REG C, PS_LVL_SHFTR_EN C, FPGA_RESET_REG C}
   \<and> multiboot_reg C \<notin> {REBOOT_STATUS_REG C, PS_LVL_SHFTR_EN C, FPGA_RESET_REG C}"

text \<open>
  C24: With the AES key in the fuses and the system initialised, \<open>FsblFallback\<close> starts the first valid
  image after the current one without a reset: the multiboot register points to that image, the boot
  loader's mark is cleared, and control goes to the address the loader returned.
\<close>

theorem fallback_starts_next_image:
  assumes "recoverable E C init addr rd" "addr \<noteq> 0" "offset_field C m"
    and "Silicon_Version (gl s) \<noteq> SILICON_VERSION_1 C" "SystemInitFlag (gl s) = 1"
    and "PcapCtrlRegVal (gl s) AND XDCFG_CTRL_PCFG_AES_FUSE_MASK C \<noteq> 0"
    and "unat (boot_device_size C (gl s)) \<le> (2 ^ m - 1) * unat (GOLDEN_IMAGE_OFFSET C)"
    and "\<And>h. reads E (BOOT_MODE_REG C) h AND BOOT_MODES_MASK C \<in> {QSPI_MODE C, NAND_FLASH_MODE C, NOR_FLASH_MODE C}"
    and mb: "mb = last_written init (multiboot_reg C) (hist s) + 1"
    and k: "find (\<lambda>n. valid_image C rd (junk E) (of_nat (n * unat (GOLDEN_IMAGE_OFFSET C))))
        [field m mb..<places C (boot_device_size C (gl s))] = Some k"
  shows "\<exists>t h. FsblFallback E C (Suc (Suc n)) s = Some (Stop t) \<and> hist t = NoReturn (FsblHandoffExit addr) # h
    \<and> last_written init (multiboot_reg C) h = mb + of_nat (k - field m mb) \<and> cleared C h"
proof -
  have env: "answer E c h = (if c = LoadBootImage then Some addr else if c = FsblHandoffExit addr then None
        else Some (XST_SUCCESS C))" "effect E c h g = g" "moved E mv h = rd"
      "reads E (multiboot_reg C) h = last_written init (multiboot_reg C) h"
      "a \<noteq> PS_RST_CTRL_REG C \<Longrightarrow> \<not> resets E a v h" for c h g mv a v
    using assms(1) by (auto simp: recoverable_def)
  have ne: "multiboot_reg C \<noteq> REBOOT_STATUS_REG C" "REBOOT_STATUS_REG C \<noteq> multiboot_reg C"
    "PS_LVL_SHFTR_EN C \<noteq> multiboot_reg C" "FPGA_RESET_REG C \<noteq> multiboot_reg C"
    "PS_RST_CTRL_REG C \<noteq> multiboot_reg C" "multiboot_reg C \<noteq> PS_RST_CTRL_REG C" "REBOOT_STATUS_REG C \<noteq> PS_RST_CTRL_REG C" 
    "PS_LVL_SHFTR_EN C \<noteq> PS_RST_CTRL_REG C" "FPGA_RESET_REG C \<noteq> PS_RST_CTRL_REG C"
    using assms(1) by (auto simp: recoverable_def)
  have uart: "uart_empties E C" using assms(1) by (simp add: recoverable_def)
  let ?mb = "mb + of_nat (k - field m mb)"
  have search: "image_search C rd (junk E) (boot_device_size C (gl s)) mb = Some (Some ?mb)"
    using image_search_finds_first [OF assms(3,7), of rd "junk E" mb] k by simp
  have notify: "wp (fallback_notify E C) (\<lambda>_ t. gl t = gl s \<and> last_written init (multiboot_reg C) (hist t) = mb) (\<lambda>_. False) s"
    using assms(4,8) by (auto simp: fallback_notify_def read_boot_mode_def Update_MultiBootRegister_def wp_simps env ne mb)
  have img: "wp (fallback_next_image E C) (\<lambda>a t. a = addr \<and> gl t = gl s \<and> last_written init (multiboot_reg C) (hist t) = ?mb) (\<lambda>_. False) t"
    if "gl t = gl s" "last_written init (multiboot_reg C) (hist t) = mb" for t
  proof -
    have "wp (search_image E C mb) Q R u = Q (Some ?mb) u" if "gl u = gl s" for Q R u
      using wp_search_image [of C E u mb "Some ?mb" Q R] search that by (simp add: env(3))
    with that show ?thesis
      by (simp add: fallback_next_image_def NextValidImageCheck_def wp_simps env ne)
  qed
  let ?R = "\<lambda>t. \<exists>h. hist t = NoReturn (FsblHandoffExit addr) # h
    \<and> last_written init (multiboot_reg C) h = ?mb \<and> cleared C h"
  have zero: "r AND NOT f AND f = (0 :: u32)" for r f by (simp add: and.assoc)
  have hand: "wp (FsblHandoff E C (Suc n) addr) (\<lambda>_ _. False) ?R t"
    if "last_written init (multiboot_reg C) (hist t) = ?mb" for t
    using that assms(2)
    by (simp add: handoff_prepare_def handoff_exit_def ClearFSBLIn_def wp_simps env ne wp_OutputStatus [OF uart] zero
       after_status_def Let_def)
  have R: "wp q Q (\<lambda>_. False) u \<Longrightarrow> wp q Q ?R u" for q :: "'b op" and Q u by (auto elim: wp_mono)
  have "wp (FsblFallback E C (Suc (Suc n))) (\<lambda>_ _. False) ?R s"
    unfolding FsblFallback.simps(2)
  proof (rule wp_andThenI [OF R [OF notify]])
    fix v :: unit and t :: fsbl assume t: "gl t = gl s \<and> last_written init (multiboot_reg C) (hist t) = mb"
    have "wp (bind (fallback_next_image E C) (FsblHandoff E C (Suc n))) (\<lambda>_ _. False) ?R t"
    proof (rule wp_bindI)
      show "wp (fallback_next_image E C) (\<lambda>a u. a = addr \<and> gl u = gl s
          \<and> last_written init (multiboot_reg C) (hist u) = ?mb) ?R t"
        using t by (intro R [OF img]) simp_all
    qed (use hand in blast)
    then have "wp (bind (fallback_next_image E C) (FsblHandoff E C (Suc n))) Q ?R t" for Q
      by (rule wp_mono) simp_all
    with t assms(5,6) show "wp (andThen (bind (get PcapCtrlRegVal) (\<lambda>v. whenever (v AND XDCFG_CTRL_PCFG_AES_FUSE_MASK C \<noteq> 0)
          (bind (get SystemInitFlag) (\<lambda>flag. if flag = 1
             then bind (fallback_next_image E C) (\<lambda>HandoffAddr. FsblHandoff E C (Suc n) HandoffAddr)
             else give_up E C)))) (Xil_Out32 E (PS_RST_CTRL_REG C) (PS_RST_MASK C))) (\<lambda>_ _. False) ?R t"
      by (simp only: wp_andThen wp_bind [of "get f" for f] wp_get wp_whenever wp_if if_True simp_thms)
  qed
  from wp_StopD [OF this] show ?thesis by blast
qed

section \<open>Witnesses\<close>

text \<open>Boot from the small NOR flash, with the key in the fuses; the current image is at place 0.\<close>

definition fused_env :: env where
  "fused_env = (sample_env 2 True None)\<lparr>answer := \<lambda>c h. if c = LoadBootImage then Some 0x100000
       else if c = FsblHandoffExit 0x100000 then None else if c = FsblHookFallback then None
       else if c = XDcfg_GetPsVersion then Some 2 else Some 0,
     effect := \<lambda>_ _ g. g\<rparr>"

definition fused_state :: fsbl where
  "fused_state = sample_state\<lparr>gl := (gl sample_state)\<lparr>PcapCtrlRegVal := 0x1000, SystemInitFlag := 1\<rparr>\<rparr>"

lemma fused_size: "boot_device_size small_nor (gl fused_state) = 0x20000"
  by (simp add: fused_state_def boot_device_size_def sample_state_def small_nor_def sample_config_def Let_def)

lemma small_size_ok: "boot_device_size small_nor g = 0x20000 \<Longrightarrow> size_ok 13 small_nor g"
  unfolding size_ok_def small_nor_fields(3) by simp

lemma fused_steady: "steady fused_env small_nor 0x60010000 13"
  by (auto simp: steady_def fused_env_def sample_env_def small_nor_def sample_config_def multiboot_reg_def
      uart_empties_def exits_def split: if_splits)


definition reentrant_env :: env where
  "reentrant_env = fused_env\<lparr>answer := \<lambda>c h. if c = LoadBootImage then Some 0x100000
       else if c = FsblHandoffExit 0x100000 then None else Some 0\<rparr>"

theorem fallback_starts_next_image_witness:
  "\<exists>t h. FsblFallback reentrant_env small_nor 2 fused_state = Some (Stop t)
    \<and> hist t = NoReturn (FsblHandoffExit 0x100000) # h \<and> last_written 0x60010000 0xF800702C h = 0x60010002"
proof -
  have rec: "recoverable reentrant_env small_nor 0x60010000 0x100000 (\<lambda>a _. sample_flash a)"
    by (simp add: recoverable_def reentrant_env_def fused_env_def sample_env_def small_nor_def sample_config_def
        multiboot_reg_def uart_empties_def fun_eq_iff)
  have facts: "Silicon_Version (gl fused_state) \<noteq> SILICON_VERSION_1 small_nor" "SystemInitFlag (gl fused_state) = 1"
      "PcapCtrlRegVal (gl fused_state) AND XDCFG_CTRL_PCFG_AES_FUSE_MASK small_nor \<noteq> 0" "hist fused_state = []"
      "reads reentrant_env (BOOT_MODE_REG small_nor) h AND BOOT_MODES_MASK small_nor = NOR_FLASH_MODE small_nor"
      "junk reentrant_env = 0" for h
    by (simp_all add: fused_state_def sample_state_def small_nor_def sample_config_def reentrant_env_def fused_env_def
        sample_env_def)
  have range: "[Suc 0..<4] = [1, 2, 3]" by (simp add: upt_conv_Cons)
  have f: "field 13 0x60010001 = Suc 0" by (simp add: field_def)
  have find: "find (\<lambda>n. valid_image small_nor (\<lambda>a _. sample_flash a) (junk reentrant_env)
        (of_nat (n * unat (GOLDEN_IMAGE_OFFSET small_nor)))) [field 13 0x60010001..<places small_nor
        (boot_device_size small_nor (gl fused_state))] = Some 2"
    using small_nor_images by (simp add: small_nor_fields fused_size f range facts(6))
  have two: "Suc (Suc 0) = 2" by simp
  have size: "unat (boot_device_size small_nor (gl fused_state)) \<le> (2 ^ 13 - 1) * unat (GOLDEN_IMAGE_OFFSET small_nor)"
    unfolding fused_size small_nor_fields(3) by simp
  have mb: "0x60010001 = last_written 0x60010000 (multiboot_reg small_nor) (hist fused_state) + 1"
    by (simp add: facts(4))
  have "(0x100000 :: u32) \<noteq> 0" by simp
  from fallback_starts_next_image [OF rec this small_nor_fields(1) facts(1-3) size _ mb find, of 0]
  show ?thesis unfolding two small_nor_fields(6) f by (auto simp: facts(5) simp del: FsblFallback.simps)
qed

end
