(* ===== verification/FsblEnds.thy ===== *)
theory FsblEnds
  imports FsblRecovery
begin

text \<open>
  A boot from a flash that the multiboot register can address ends. Stage by stage \<open>main\<close> keeps the place of the current image in the multiboot
  register, so that every fallback on its way ends (\<open>FsblRecovery\<close>); since its last step is a handoff, it
  never returns.
\<close>

section \<open>The stages of main keep the place\<close>

lemma size_ok_set [simp]:
  "size_ok m C (g\<lparr>Silicon_Version := v\<rparr>) = size_ok m C g" "size_ok m C (g\<lparr>PcapCtrlRegVal := w\<rparr>) = size_ok m C g"
  "size_ok m C (g\<lparr>MoveImage := mv\<rparr>) = size_ok m C g" "size_ok m C (g\<lparr>LinearBootDeviceFlag := b\<rparr>) = size_ok m C g"
  "size_ok m C (g\<lparr>SystemInitFlag := b\<rparr>) = size_ok m C g"
  by (simp_all add: size_ok_def boot_device_size_def)

lemma flash_ok_set [simp]:
  "flash_ok m C (g\<lparr>PcapCtrlRegVal := w\<rparr>) = flash_ok m C g" "flash_ok m C (g\<lparr>MoveImage := mv\<rparr>) = flash_ok m C g"
  "flash_ok m C (g\<lparr>LinearBootDeviceFlag := b\<rparr>) = flash_ok m C g" "flash_ok m C (g\<lparr>SystemInitFlag := b\<rparr>) = flash_ok m C g"
  by (simp_all add: flash_ok_def)

lemma holds_main_init:
  assumes "steady E C init m" "preserves E I"
  shows "holds C (place I C init v) (main_init E C)"
  unfolding main_init_def RegisterHandlers_def FsblGetGlobalTime_def
  by (intro holds_intros holds_ext [OF assms] holds_OutputStatus [OF assms(1)] holds_Out32 [OF assms(1)]
      steadyD(10) [OF assms(1)])

text \<open>The silicon version is known from here on.\<close>

lemma main_ddr_pcap_place:
  assumes "steady E C init m" "place (size_ok m C) C init v s"
  shows "wp (main_ddr_pcap E C) (\<lambda>_. place (flash_ok m C) C init v) (ended C) s"
proof -
  let ?P = "place (size_ok m C) C init v"
  note ext = holds_ext [OF assms(1) steady_preserves(1) [OF assms(1)]]
  have ddr: "holds C ?P (bind (DDRInitCheck E C) (\<lambda>Status.
       whenever (Status = XST_FAILURE C) (steps [OutputStatus E C DDR_INIT_FAIL, invoke E FsblHookFallback])))"
    unfolding DDRInitCheck_def
    by (intro holds_intros ext holds_OutputStatus [OF assms(1)] holds_Out32 [OF assms(1)] steadyD(8,9) [OF assms(1)])
  have version: "wp (GetSiliconVersion E) (\<lambda>_. place (flash_ok m C) C init v) (ended C) t" if "?P t" for t
    using that steady_preserves(1) [OF assms(1)] steadyD(11) [OF assms(1)]
    by (auto simp: GetSiliconVersion_def wp_simps place_def flash_ok_def preserves_def intro: ended_call [OF assms(1)]
        split: option.split)
  have report: "holds C ?P (whenever b (steps [OutputStatus E C PCAP_INIT_FAIL, invoke E FsblHookFallback]))" for b
    by (intro holds_intros ext holds_OutputStatus [OF assms(1)])
  have pcap: "wp (bind (ext E InitPcap) (\<lambda>Status.
      andThen (whenever (Status = XST_FAILURE C) (steps [OutputStatus E C PCAP_INIT_FAIL, invoke E FsblHookFallback]))
      (andThen (GetSiliconVersion E) (ret Status)))) (\<lambda>_. place (flash_ok m C) C init v) (ended C) t" if "?P t" for t
    unfolding andThen_def
    by (rule holds_next [OF ext(1) that], rule holds_next [OF report], assumption,
        rule wp_bindI [OF version], assumption) (simp add: wp_ret)
  show ?thesis
    unfolding main_ddr_pcap_def andThen_def [of "bind m f" for m f]
    by (rule holds_next [OF ddr assms(2)]) (rule pcap)
qed

text \<open>A fallback called from any of the stages, at a place with an offset to come.\<close>

lemma holds_fallback:
  assumes "steady E C init m" "offset_field C m" "Suc (field m v) < 2 ^ m" "2 * 2 ^ m \<le> n"
  shows "holds C (place (flash_ok m C) C init v) (FsblFallback E C n)"
  unfolding holds_def
proof (intro allI impI)
  fix s assume "place (flash_ok m C) C init v s"
  from fallback_stops [OF assms(1,2) this assms(3)] assms(4)
  show "wp (FsblFallback E C n) (\<lambda>_. place (flash_ok m C) C init v) (ended C) s" by simp
qed

lemma holds_watchdog:
  assumes "steady E C init m" "preserves E I"
  shows "holds C (place I C init v) (CheckWDTReset E C)" "holds C (place I C init v) (InitWatchDog D E C)"
  unfolding CheckWDTReset_def GetResetReason_def InitWatchDog_def ConvertTime_WdtCounter_def Let_def
  by (intro holds_intros holds_ext [OF assms] holds_Out32 [OF assms(1)] steadyD(4,7) [OF assms(1)])+

lemma holds_main_parts:
  assumes "steady E C init m" "offset_field C m" "Suc (field m v) < 2 ^ m" "2 * 2 ^ m \<le> n"
  shows "holds C (place (flash_ok m C) C init v) (main_watchdog D E C n st)"
    and "holds C (place (flash_ok m C) C init v) (main_device E C n st)"
proof -
  note ext = holds_ext [OF assms(1) steady_preserves(2) [OF assms(1)]]
  note intros = holds_intros ext holds_OutputStatus [OF assms(1)] holds_fallback [OF assms]
    holds_watchdog [OF assms(1) steady_preserves(2) [OF assms(1)]] holds_status_register [OF assms(1)]
  show "holds C (place (flash_ok m C) C init v) (main_watchdog D E C n st)"
    unfolding main_watchdog_def by (intro intros holds_set_gl) simp
  show "holds C (place (flash_ok m C) C init v) (main_device E C n st)"
    unfolding main_device_def read_boot_mode_def select_device_def use_device_def jtag_boot_def
    by (intro intros holds_set_gl; simp)
qed

section \<open>main ends\<close>

lemma main_load_stops:
  assumes "steady E C init m" "offset_field C m" "Suc (field m v) < 2 ^ m" "2 * 2 ^ m \<le> n"
    and "place (flash_ok m C) C init v s"
  shows "wp (main_load E C (Suc n)) Q (ended C) s"
proof -
  note ext = holds_ext [OF assms(1) steady_preserves(2) [OF assms(1)]]
  have fall: "holds C (place (flash_ok m C) C init v) (FsblFallback E C (Suc n))"
    using assms(4) by (intro holds_fallback [OF assms(1-3)]) simp
  have check: "holds C (place (flash_ok m C) C init v) (whenever b
      (andThen (OutputStatus E C INVALID_FLASH_ADDRESS) (FsblFallback E C (Suc n))))" for b
    by (intro holds_intros holds_OutputStatus [OF assms(1)] fall)
  have flags: "holds C (place (flash_ok m C) C init v) (steps
      [whenever (base = XPS_NOR_BASEADDR C) (set_gl (\<lambda>g. g\<lparr>LinearBootDeviceFlag := 1\<rparr>)),
       whenever (has_wdt C) (invoke E XWdtPs_RestartWdt), set_gl (\<lambda>g. g\<lparr>SystemInitFlag := 1\<rparr>)])" for base
    by (intro holds_intros ext holds_set_gl) simp_all
  have perf: "holds C (place (flash_ok m C) C init v) (whenever (FSBL_PERF C) (invoke E XTime_GetTime))"
    by (intro holds_intros ext)
  have hand: "wp (FsblHandoff E C (Suc n) a) Q (ended C) t" if "place (flash_ok m C) C init v t" for a t
    by (rule handoff_stops [OF assms(1) steady_preserves(2) [OF assms(1)] that])
       (use fallback_stops [OF assms(1,2) _ assms(3)] assms(4) in simp)
  show ?thesis
    unfolding main_load_def andThen_def [of "whenever b m" for b m] FsblMeasurePerfTime_def andThen_def [of "steps ms" for ms]
    by (rule holds_next [where P = "place (flash_ok m C) C init v", OF holds_ret(2) assms(5)],
        rule holds_next [OF check], assumption,
        rule holds_next [where P = "place (flash_ok m C) C init v", OF holds_ret(2)], assumption, rule holds_next [OF flags], assumption,
        rule holds_next [OF ext(1)], assumption, rule holds_next [OF perf], assumption, rule hand)
qed

text \<open>
  C10: A boot from a flash that the multiboot register can address ends, and never by a return of \<open>main\<close>. The
  conditions: the board has DDR and is not 1.0 silicon; the boot devices are no larger than the last
  offset the multiboot field can express, and the search starts below that offset; the multiboot register keeps
  what is written and exactly the reset write resets; the UART drains; the calls below \<open>main\<close> return, except the
  handoffs, which may return or not; and the fallback hook keeps control. Then, whatever the devices answer,
  the images hold and the applications do, \<open>main\<close> neither loops for ever nor returns: control ends
  in the reset, in the fallback hook or in the application or debugger handed over to. The calls of
  \<open>FsblFallback\<close> and \<open>FsblHandoff\<close> nest at most one deeper than twice the number of offsets. On a larger flash
  the search for an image can loop for ever (\<open>FsblOutcome\<close>); and the comment of \<open>main\<close>, which
  has it return \<open>XST_SUCCESS\<close> or \<open>XST_FAILURE\<close>, is not what the code does.
\<close>

theorem boot_always_ends:
  assumes "steady E C init m" "offset_field C m" "has_ddr C" "size_ok m C g"
    and "Suc (field m init) < 2 ^ m" "2 * 2 ^ m < n"
  shows "\<exists>t. fsbl_main D E C n \<lparr>gl = g, hist = []\<rparr> = Some (Stop t) \<and> ended C t"
proof -
  obtain k where n: "n = Suc k" "2 * 2 ^ m \<le> k" using assms(6) by (cases n) auto
  have start: "place (size_ok m C) C init init \<lparr>gl = g, hist = []\<rparr>" using assms(4) by (simp add: place_def)
  have "2 * 2 ^ m \<le> n" using assms(6) by simp
  note parts = holds_main_parts [OF assms(1,2,5) this]
  have "wp (fsbl_main D E C n) (\<lambda>_ _. False) (ended C) \<lparr>gl = g, hist = []\<rparr>"
    unfolding fsbl_main_def if_P [OF assms(3)]
    by (rule holds_next [OF holds_main_init [OF assms(1) steady_preserves(1) [OF assms(1)]] start],
        rule wp_bindI [OF main_ddr_pcap_place [OF assms(1)]], assumption,
        rule holds_next [OF parts(1)], assumption, rule holds_next [OF parts(2)], assumption,
        rule wp_andThenI [where P = "\<lambda>_ _. False"])
       (use main_load_stops [OF assms(1,2,5) n(2)] n(1) in auto)
  from wp_StopD [OF this] show ?thesis .
qed

section \<open>Witness\<close>

text \<open>Boot from the small NOR flash with the key in the fuses, and an application that comes back.\<close>

definition returning_env :: env where
  "returning_env = fused_env\<lparr>answer := \<lambda>c h. if c = LoadBootImage then Some 0x100000 else if c = FsblHookFallback then None
       else if c = XDcfg_GetPsVersion then Some 2 else if c = XDcfg_GetControlRegister then Some 0x1000 else Some 0,
     effect := \<lambda>c _ g. if c = InitNor then g\<lparr>FlashReadBaseAddress := 0xE2000000\<rparr> else g\<rparr>"

lemma returning_steady: "steady returning_env small_nor 0x60010000 13"
proof -
  have "size_ok 13 small_nor (g\<lparr>FlashReadBaseAddress := 0xE2000000\<rparr>)" for g
    by (rule small_size_ok) (simp add: boot_device_size_def small_nor_def sample_config_def Let_def)
  then show ?thesis
    using fused_steady
    by (simp add: steady_def returning_env_def) (auto simp: fused_env_def exits_def uart_empties_def split: if_splits)
qed

theorem boot_always_ends_witness:
  "\<exists>t. fsbl_main exact returning_env small_nor 16385 sample_state = Some (Stop t) \<and> ended small_nor t"
proof -
  have "size_ok 13 small_nor (gl sample_state)" by (rule small_size_ok [OF small_nor_fields(7)])
  moreover have "has_ddr small_nor" by (simp add: small_nor_def sample_config_def)
  moreover have "Suc (field 13 0x60010000) < 2 ^ 13" by (simp add: field_def)
  moreover have "sample_state = \<lparr>gl = gl sample_state, hist = []\<rparr>" by (simp add: sample_state_def)
  ultimately show ?thesis
    using boot_always_ends [OF returning_steady small_nor_fields(1), of "gl sample_state" 16385 exact] by simp
qed

end
