(* ===== verification/HelloTest.thy ===== *)
theory HelloTest
  imports Prelude
begin

text \<open>
  The bare-metal test program, \<open>riscv-test/crt.S\<close> and \<open>riscv-test/hello.c\<close>, against a host that follows the
  protocol of the opening comment of \<open>hello.c\<close> (\<open>fesvr_turn\<close>), with any finite delay before it serves
  each request. String literals live in memory at addresses given by the linker.
\<close>

section \<open>The machine\<close>

record rv =
  mem :: "u64 \<Rightarrow> u8"
  syscall_buf :: "u64 list"
  tohost :: u64
  fromhost :: u64
  console :: "u8 list"
  exit_code :: "u64 option"
  delay :: nat
  delays :: "nat list"

definition SYS_write :: u64 where "SYS_write = 64"

definition bytes_at :: "(u64 \<Rightarrow> u8) \<Rightarrow> u64 \<Rightarrow> nat \<Rightarrow> u8 list" where
  "bytes_at m a n = map (\<lambda>i. m (a + of_nat i)) [0..<n]"

text \<open>
  An odd value is an exit with its code in the other bits; any other is the address of a request
  buffer, which is acknowledged through \<open>fromhost\<close>.
\<close>

definition serve :: "u64 \<Rightarrow> rv \<Rightarrow> rv" where
  "serve buf h =
     (if tohost h = 0 then h
      else if bit (tohost h) 0 then h\<lparr>exit_code := Some (drop_bit 1 (tohost h)), tohost := 0\<rparr>
      else let h = (if tohost h = buf \<and> syscall_buf h ! 0 = SYS_write \<and> syscall_buf h ! 1 = 1
                    then h\<lparr>console := console h @ bytes_at (mem h) (syscall_buf h ! 2) (unat (syscall_buf h ! 3))\<rparr>
                    else h)
           in h\<lparr>fromhost := 1, tohost := 0\<rparr>)"

definition fesvr_turn :: "u64 \<Rightarrow> rv \<Rightarrow> rv" where
  "fesvr_turn buf h =
     (case delay h of
        Suc n \<Rightarrow> h\<lparr>delay := n\<rparr>
      | 0 \<Rightarrow> (serve buf h)\<lparr>delay := hd (delays h @ [0]), delays := tl (delays h)\<rparr>)"

definition load_fromhost :: "u64 \<Rightarrow> rv \<Rightarrow> u64 \<times> rv" where
  "load_fromhost buf h = (let h = fesvr_turn buf h in (fromhost h, h))"

section \<open>The program\<close>

text \<open>\<open>buf\<close> is the address of \<open>syscall_buf\<close>.\<close>

definition htif_syscall :: "u64 \<Rightarrow> u64 \<Rightarrow> u64 \<Rightarrow> u64 \<Rightarrow> u64 \<Rightarrow> rv \<Rightarrow> rv option" where
  "htif_syscall buf n a0 a1 a2 h =
     (let h = h\<lparr>syscall_buf := [n, a0, a1, a2, 0, 0, 0, 0]\<rparr>;
          h = h\<lparr>tohost := buf\<rparr>
      in map_option (\<lambda>(_, h). h\<lparr>fromhost := 0\<rparr>) (spin (load_fromhost buf) (\<lambda>v. v \<noteq> 0) h))"

partial_function (option) string_length :: "(u64 \<Rightarrow> u8) \<Rightarrow> u64 \<Rightarrow> u64 \<Rightarrow> u64 option" where
  "string_length m s len = (if m (s + len) \<noteq> 0 then string_length m s (len + 1) else Some len)"

definition print :: "u64 \<Rightarrow> u64 \<Rightarrow> rv \<Rightarrow> rv option" where
  "print buf s h =
     (case string_length (mem h) s 0 of
        None \<Rightarrow> None
      | Some len \<Rightarrow> htif_syscall buf SYS_write 1 s len h)"

text \<open>\<open>htif_exit\<close> spins forever: the state it spins in, and \<open>main\<close> up to that point.\<close>

definition htif_exit :: "u32 \<Rightarrow> rv \<Rightarrow> rv" where
  "htif_exit code h = h\<lparr>tohost := push_bit 1 (scast code) OR 1\<rparr>"

function sum_loop :: "u64 \<Rightarrow> u64 \<Rightarrow> u64" where
  "sum_loop i acc = (if i \<le> 100 then sum_loop (i + 1) (acc + i) else acc)"
  by pat_completeness auto

termination
proof (relation "measure (\<lambda>(i, _). 101 - unat i)")
  fix i acc :: u64
  assume "i \<le> 100"
  then have "unat i \<le> 100" by (simp add: word_le_nat_alt)
  moreover from this have "unat (i + 1) = unat i + 1" by (simp add: unat_word_ariths)
  ultimately show "((i + 1, acc + i), i, acc) \<in> measure (\<lambda>(i, _). 101 - unat i)" by simp
qed simp

declare sum_loop.simps [simp del]

record literals =
  hello :: u64
  mismatch :: u64
  sum_line :: u64
  shift_mismatch :: u64
  shift_ok :: u64
  pass :: u64

definition hello_main :: "u64 \<Rightarrow> literals \<Rightarrow> rv \<Rightarrow> rv option" where
  "hello_main buf L h =
     (case print buf (hello L) h of None \<Rightarrow> None | Some h \<Rightarrow>
      let acc = sum_loop 1 0 in
      if acc \<noteq> 5050 then map_option (htif_exit 1) (print buf (mismatch L) h)
      else
        case print buf (sum_line L) h of None \<Rightarrow> None | Some h \<Rightarrow>
        let wide = push_bit 40 1 :: u64 in
        if wide \<noteq> 1099511627776 then map_option (htif_exit 1) (print buf (shift_mismatch L) h)
        else
          case print buf (shift_ok L) h of None \<Rightarrow> None | Some h \<Rightarrow>
          map_option (htif_exit 0) (print buf (pass L) h))"

text \<open>\<open>sd zero, 0(t0)\<close> and the loop over the BSS in \<open>_start\<close>; the label \<open>2\<close> is the call of \<open>main\<close>.\<close>

definition sd_zero :: "u64 \<Rightarrow> (u64 \<Rightarrow> u8) \<Rightarrow> u64 \<Rightarrow> u8" where
  "sd_zero a m = (\<lambda>x. if unat (x - a) < 8 then 0 else m x)"

partial_function (option) bss_loop :: "u64 \<Rightarrow> u64 \<Rightarrow> (u64 \<Rightarrow> u8) \<Rightarrow> (u64 \<Rightarrow> u8) option" where
  "bss_loop t0 t1 m = (if t1 \<le> t0 then Some m else bss_loop (t0 + 8) t1 (sd_zero t0 m))"

definition crt_start :: "u64 \<Rightarrow> u64 \<Rightarrow> u64 \<Rightarrow> literals \<Rightarrow> rv \<Rightarrow> rv option" where
  "crt_start bss_start bss_end buf L h =
     (case bss_loop bss_start bss_end (mem h) of
        None \<Rightarrow> None
      | Some m \<Rightarrow> hello_main buf L (h\<lparr>mem := m\<rparr>))"

text \<open>The texts of the messages that a working core prints.\<close>

definition hello_text :: "u8 list" where
  "hello_text = ascii ''Hello from Rocket Chip on PYNQ-Z1!'' @ [10]"

definition sum_text :: "u8 list" where
  "sum_text = ascii ''sum(1..100) = 5050 (expected 5050)'' @ [10]"

definition shift_text :: "u8 list" where
  "shift_text = ascii ''64-bit shift OK (1<<40)'' @ [10]"

definition pass_text :: "u8 list" where
  "pass_text = ascii ''PASS'' @ [10]"

section \<open>Printing\<close>

definition outstanding :: "u64 \<Rightarrow> rv \<Rightarrow> bool" where
  "outstanding buf h \<longleftrightarrow> tohost h = buf \<and> buf \<noteq> 0 \<and> \<not> bit buf 0"

text \<open>The host as the other side of the acknowledgement loop.\<close>

interpretation acknowledged: poller "load_fromhost buf" "\<lambda>v. v \<noteq> 0" "outstanding buf" delay
  for buf
  by unfold_locales
     (auto simp: load_fromhost_def Let_def fesvr_turn_def serve_def outstanding_def split: nat.splits if_splits)

lemma syscall_write:
  assumes "buf \<noteq> 0" "\<not> bit buf 0" "fromhost h = 0"
  shows "\<exists>h'. htif_syscall buf SYS_write 1 s len h = Some h' \<and> mem h' = mem h \<and> tohost h' = 0 \<and> fromhost h' = 0
    \<and> console h' = console h @ bytes_at (mem h) s (unat len) \<and> exit_code h' = exit_code h"
proof -
  let ?h = "h\<lparr>syscall_buf := [SYS_write, 1, s, len, 0, 0, 0, 0], tohost := buf\<rparr>"
  let ?P = "\<lambda>u. \<exists>n. u = ?h\<lparr>delay := n\<rparr>"
  have good: "outstanding buf ?h" using assms by (simp add: outstanding_def)
  have "?P ?h" by (intro exI [of _ "delay h"]) simp
  with good have "\<exists>w v h'. spin (load_fromhost buf) (\<lambda>v. v \<noteq> 0) ?h = Some (v, h') \<and> outstanding buf w \<and> ?P w
      \<and> load_fromhost buf w = (v, h') \<and> v \<noteq> 0"
  proof (rule acknowledged.spin_ends)
    fix u v u'
    assume u: "?P u" "load_fromhost buf u = (v, u')" "\<not> v \<noteq> 0"
    then obtain n where "u = ?h\<lparr>delay := n\<rparr>" by blast
    with u(2,3) assms show "?P u'"
      by (cases n) (auto simp: load_fromhost_def Let_def fesvr_turn_def serve_def)
  qed
  then obtain n v h' where s: "spin (load_fromhost buf) (\<lambda>v. v \<noteq> 0) ?h = Some (v, h')"
    and h': "load_fromhost buf (?h\<lparr>delay := n\<rparr>) = (v, h')" "v \<noteq> 0" by blast
  from h' assms have "h' = ?h\<lparr>delay := hd (delays h @ [0]), delays := tl (delays h), fromhost := 1, tohost := 0,
      console := console h @ bytes_at (mem h) s (unat len)\<rparr>"
    by (cases n) (auto simp: load_fromhost_def Let_def fesvr_turn_def serve_def)
  with s show ?thesis by (simp add: htif_syscall_def)
qed

text \<open>A terminated string in memory.\<close>

definition literal :: "(u64 \<Rightarrow> u8) \<Rightarrow> u64 \<Rightarrow> u8 list \<Rightarrow> bool" where
  "literal m a xs \<longleftrightarrow> bytes_at m a (length xs) = xs \<and> 0 \<notin> set xs \<and> m (a + of_nat (length xs)) = 0
     \<and> length xs < 2 ^ 64"

lemma string_length_literal:
  assumes "literal m a xs" "i + k = length xs"
  shows "string_length m a (of_nat i) = Some (of_nat (length xs))"
  using assms(2)
proof (induction k arbitrary: i)
  case 0
  then show ?case using assms(1) by (simp add: string_length.simps [of _ _ "of_nat (length xs)"] literal_def)
next
  case (Suc k)
  have "m (a + of_nat i) = xs ! i"
  proof -
    have "bytes_at m a (length xs) ! i = m (a + of_nat i)" using Suc.prems by (simp add: bytes_at_def)
    with assms(1) show ?thesis by (simp add: literal_def)
  qed
  moreover have "xs ! i \<in> set xs" using Suc.prems by simp
  ultimately have "m (a + of_nat i) \<noteq> 0" using assms(1) by (auto simp: literal_def)
  with Suc.IH [of "i + 1"] Suc.prems show ?case
    by (simp add: string_length.simps [of _ _ "of_nat i"] add.commute)
qed

lemma print_literal:
  assumes "buf \<noteq> 0" "\<not> bit buf 0" "fromhost h = 0" "literal (mem h) s xs"
  shows "\<exists>h'. print buf s h = Some h' \<and> mem h' = mem h \<and> fromhost h' = 0 \<and> console h' = console h @ xs
    \<and> exit_code h' = exit_code h"
proof -
  have "string_length (mem h) s 0 = Some (of_nat (length xs))"
    using string_length_literal [OF assms(4), of 0 "length xs"] by simp
  moreover have "bytes_at (mem h) s (unat (of_nat (length xs) :: u64)) = xs"
    using assms(4) by (simp add: literal_def unat_of_nat)
  ultimately show ?thesis
    using syscall_write [OF assms(1-3), of s "of_nat (length xs)"] by (auto simp: print_def)
qed

section \<open>The whole program\<close>

lemma sum_loop_100: "sum_loop 1 0 = 5050"
  by (simp add: sum_loop.simps)

lemma main_passes:
  assumes "buf \<noteq> 0" "\<not> bit buf 0" "fromhost h = 0"
    and "literal (mem h) (hello L) a" "literal (mem h) (sum_line L) b" "literal (mem h) (shift_ok L) c"
    and "literal (mem h) (pass L) d"
  shows "\<exists>h'. hello_main buf L h = Some h' \<and> console h' = console h @ a @ b @ c @ d \<and> tohost h' = 1"
proof -
  obtain h1 where h1: "print buf (hello L) h = Some h1" "mem h1 = mem h" "fromhost h1 = 0"
    "console h1 = console h @ a" using print_literal [OF assms(1-4)] by blast
  obtain h2 where h2: "print buf (sum_line L) h1 = Some h2" "mem h2 = mem h" "fromhost h2 = 0"
    "console h2 = console h @ a @ b" using print_literal [OF assms(1,2) h1(3), of "sum_line L" b] assms(5) h1 by auto
  obtain h3 where h3: "print buf (shift_ok L) h2 = Some h3" "mem h3 = mem h" "fromhost h3 = 0"
    "console h3 = console h @ a @ b @ c" using print_literal [OF assms(1,2) h2(3), of "shift_ok L" c] assms(6) h2 by auto
  obtain h4 where h4: "print buf (pass L) h3 = Some h4" "console h4 = console h @ a @ b @ c @ d"
    using print_literal [OF assms(1,2) h3(3), of "pass L" d] assms(7) h3 by auto
  have "hello_main buf L h = Some (htif_exit 0 h4)"
    using h1 h2 h3 h4 by (simp add: hello_main_def sum_loop_100)
  then show ?thesis using h4 by (simp add: htif_exit_def)
qed

lemma bss_loop_zeroes:
  assumes "unat t0 + 8 * k < 2 ^ 64"
  shows "bss_loop t0 (t0 + of_nat (8 * k)) m = Some (\<lambda>x. if unat (x - t0) < 8 * k then 0 else m x)"
  using assms
proof (induction k arbitrary: t0 m)
  case 0
  then show ?case by (simp add: bss_loop.simps)
next
  case (Suc k)
  have up: "unat (t0 + 8) = unat t0 + 8" using Suc.prems by (simp add: unat_word_ariths)
  have "unat (t0 + of_nat (8 * Suc k)) = unat t0 + 8 * Suc k"
    using Suc.prems by (simp add: unat_word_ariths unat_of_nat)
  then have more: "\<not> t0 + of_nat (8 * Suc k) \<le> t0" by (simp add: word_le_nat_alt)
  have far: "unat (x - t0) < 8 * Suc k \<longleftrightarrow> unat (x - t0) < 8 \<or> unat (x - (t0 + 8)) < 8 * k" for x
  proof (cases "unat (x - t0) < 8")
    case False
    then have "8 \<le> x - t0" by (simp add: word_le_nat_alt)
    then have "unat (x - t0 - 8) = unat (x - t0) - 8" using unat_sub [of 8 "x - t0"] by simp
    moreover have "x - t0 - 8 = x - (t0 + 8)" by simp
    ultimately show ?thesis using False by auto
  qed simp
  have "bss_loop t0 (t0 + of_nat (8 * Suc k)) m = bss_loop (t0 + 8) (t0 + 8 + of_nat (8 * k)) (sd_zero t0 m)"
    using more by (simp add: bss_loop.simps [of t0] algebra_simps)
  also have "\<dots> = Some (\<lambda>x. if unat (x - (t0 + 8)) < 8 * k then 0 else sd_zero t0 m x)"
    using Suc.prems up by (intro Suc.IH) simp
  also have "(\<lambda>x. if unat (x - (t0 + 8)) < 8 * k then 0 else sd_zero t0 m x) =
      (\<lambda>x. if unat (x - t0) < 8 * Suc k then 0 else m x)"
    by (rule ext) (simp only: far sd_zero_def, simp)
  finally show ?case .
qed

text \<open>A string whose bytes, the terminator included, lie outside the BSS.\<close>

definition outside_bss :: "u64 \<Rightarrow> u64 \<Rightarrow> u64 \<Rightarrow> u8 list \<Rightarrow> bool" where
  "outside_bss lo hi a xs \<longleftrightarrow> (\<forall>i \<le> length xs. unat (hi - lo) \<le> unat (a + of_nat i - lo))"

lemma literal_outside:
  assumes "literal m a xs" "outside_bss lo hi a xs"
  shows "literal (\<lambda>x. if unat (x - lo) < unat (hi - lo) then 0 else m x) a xs"
proof -
  have "bytes_at (\<lambda>x. if unat (x - lo) < unat (hi - lo) then 0 else m x) a (length xs) = bytes_at m a (length xs)"
    using assms(2) by (auto simp: bytes_at_def outside_bss_def not_less [symmetric])
  with assms show ?thesis by (simp add: literal_def outside_bss_def not_less [symmetric])
qed

text \<open>
  C27: From its first instruction the test program clears its BSS and nothing else, terminates each
  print against any host delay, writes its four messages in order and no mismatch message, and ends
  spinning in \<open>htif_exit\<close> with 1 in \<open>tohost\<close>, which the host decodes as exit code 0. The BSS ends on a
  multiple of 8 bytes, as the linker script aligns it, and holds none of the messages.
\<close>

theorem hello_passes:
  assumes "buf \<noteq> 0" "\<not> bit buf 0" "fromhost h = 0"
    and bss: "unat bss_start + 8 * k < 2 ^ 64" "bss_end = bss_start + of_nat (8 * k)"
    and "literal (mem h) (hello L) hello_text" "outside_bss bss_start bss_end (hello L) hello_text"
    and "literal (mem h) (sum_line L) sum_text" "outside_bss bss_start bss_end (sum_line L) sum_text"
    and "literal (mem h) (shift_ok L) shift_text" "outside_bss bss_start bss_end (shift_ok L) shift_text"
    and "literal (mem h) (pass L) pass_text" "outside_bss bss_start bss_end (pass L) pass_text"
  shows "\<exists>h'. crt_start bss_start bss_end buf L h = Some h' \<and> tohost h' = 1
    \<and> bss_loop bss_start bss_end (mem h) = Some (\<lambda>x. if unat (x - bss_start) < 8 * k then 0 else mem h x)
    \<and> console h' = console h @ hello_text @ sum_text @ shift_text @ pass_text
    \<and> exit_code (serve buf h') = Some 0"
proof -
  have len: "unat (bss_end - bss_start) = 8 * k" using bss by (simp add: unat_of_nat del: of_nat_mult)
  let ?m = "\<lambda>x. if unat (x - bss_start) < 8 * k then 0 else mem h x"
  have z: "bss_loop bss_start bss_end (mem h) = Some ?m" unfolding bss(2) by (rule bss_loop_zeroes [OF bss(1)])
  note lit = assms(6-)
  have "literal ?m (hello L) hello_text" "literal ?m (sum_line L) sum_text"
      "literal ?m (shift_ok L) shift_text" "literal ?m (pass L) pass_text"
    using literal_outside [OF lit(1,2)] literal_outside [OF lit(3,4)] literal_outside [OF lit(5,6)]
      literal_outside [OF lit(7,8)] by (simp_all only: len)
  then obtain h' where "hello_main buf L (h\<lparr>mem := ?m\<rparr>) = Some h'" "tohost h' = 1"
      "console h' = console h @ hello_text @ sum_text @ shift_text @ pass_text"
    using main_passes [of buf "h\<lparr>mem := ?m\<rparr>" L hello_text sum_text shift_text pass_text] assms(1-3) by auto
  with z show ?thesis by (simp add: crt_start_def serve_def)
qed

section \<open>Witness\<close>

definition put :: "u64 \<Rightarrow> u8 list \<Rightarrow> (u64 \<Rightarrow> u8) \<Rightarrow> u64 \<Rightarrow> u8" where
  "put a xs m = (\<lambda>x. if unat (x - a) < length xs then xs ! unat (x - a) else m x)"

definition sample_memory :: "u64 \<Rightarrow> u8" where
  "sample_memory =
     put 0x1000 hello_text (put 0x1040 sum_text (put 0x1080 shift_text (put 0x10C0 pass_text (\<lambda>_. 0))))"

definition sample_rv :: rv where
  "sample_rv = \<lparr>mem = sample_memory, syscall_buf = [], tohost = 0, fromhost = 0, console = [], exit_code = None,
     delay = 2, delays = [0, 7]\<rparr>"

definition sample_literals :: literals where
  "sample_literals = \<lparr>hello = 0x1000, mismatch = 0x1100, sum_line = 0x1040, shift_mismatch = 0x1100,
     shift_ok = 0x1080, pass = 0x10C0\<rparr>"

lemma apart_region:
  fixes a b :: u64
  assumes "unat b + l \<le> unat a \<and> unat a + n < 2 ^ 64 \<or> unat a + n < unat b \<and> unat b + l \<le> 2 ^ 64" "i \<le> n"
  shows "l \<le> unat (a + of_nat i - b)"
proof -
  have i: "unat (a + of_nat i) = unat a + i"
    using assms unat_less_exp [of b] by (auto simp: unat_word_ariths unat_of_nat)
  have b: "unat b < 2 ^ 64" using unat_less_exp [of b] by simp
  show ?thesis
    using assms b by (auto simp: unat_sub_if_size word_size i)
qed

lemma put_literal:
  assumes "m (a + of_nat (length xs)) = 0" "0 \<notin> set xs" "length xs < 2 ^ 64"
  shows "literal (put a xs m) a xs"
  using assms by (auto simp: literal_def bytes_at_def put_def unat_of_nat intro!: nth_equalityI)

lemma literal_put:
  assumes "literal m a xs"
    and "unat b + length ys \<le> unat a \<and> unat a + length xs < 2 ^ 64 \<or> unat a + length xs < unat b \<and> unat b + length ys \<le> 2 ^ 64"
  shows "literal (put b ys m) a xs"
proof -
  have far: "length ys \<le> unat (a + of_nat i - b)" if "i \<le> length xs" for i
    by (rule apart_region [OF assms(2) that])
  then have "bytes_at (put b ys m) a (length xs) = bytes_at m a (length xs)"
    by (auto simp: bytes_at_def put_def not_less [symmetric])
  with assms(1) far show ?thesis by (simp add: literal_def put_def not_less [symmetric])
qed

lemmas text_defs = hello_text_def sum_text_def shift_text_def pass_text_def ascii_def

lemma text_lengths:
  "length hello_text = 35" "length sum_text = 35" "length shift_text = 24" "length pass_text = 5"
  by (simp_all add: text_defs)

lemma texts_nonzero: "0 \<notin> set hello_text" "0 \<notin> set sum_text" "0 \<notin> set shift_text" "0 \<notin> set pass_text"
  by (simp_all add: text_defs)

lemma sample_texts:
  "literal sample_memory 0x1000 hello_text" "literal sample_memory 0x1040 sum_text"
  "literal sample_memory 0x1080 shift_text" "literal sample_memory 0x10C0 pass_text"
  unfolding sample_memory_def
  by (intro literal_put put_literal; simp add: text_lengths texts_nonzero put_def)+

lemma sample_outside:
  "outside_bss 0x2000 0x2040 0x1000 hello_text" "outside_bss 0x2000 0x2040 0x1040 sum_text"
  "outside_bss 0x2000 0x2040 0x1080 shift_text" "outside_bss 0x2000 0x2040 0x10C0 pass_text"
  unfolding outside_bss_def by (intro allI impI apart_region; simp add: text_lengths)+

theorem hello_passes_witness:
  "\<exists>h'. crt_start 0x2000 0x2040 0x2000 sample_literals sample_rv = Some h'
    \<and> console h' = hello_text @ sum_text @ shift_text @ pass_text \<and> exit_code (serve 0x2000 h') = Some 0"
proof -
  have "\<not> bit (0x2000 :: u64) 0" by simp
  then show ?thesis
    using hello_passes [of "0x2000" sample_rv "0x2000" 8 "0x2040" sample_literals] sample_texts sample_outside
    by (auto simp: sample_rv_def sample_literals_def)
qed

end
