(* ===== verification/PlProbe.thy ===== *)
theory PlProbe
  imports Prelude
begin

text \<open>
  The probe of the programmable logic, \<open>tools/pl-probe.c\<close>. The system calls are parameters: what
  \<open>open\<close> and \<open>mmap\<close> return, the page size and the words the registers hold. The program is modelled
  by the calls it makes, in order, and its exit status.
\<close>

definition regs :: "(u32 \<times> string) list" where
  "regs =
     [(0x04, ''TSI_OUT_FIFO_COUNT''),
      (0x0C, ''TSI_IN_FIFO_COUNT''),
      (0x10, ''SYSTEM_RESET''),
      (0x24, ''BLKDEV_REQ_FIFO_COUNT''),
      (0x2C, ''BLKDEV_DATA_FIFO_COUNT''),
      (0x34, ''BLKDEV_RESP_FIFO_COUNT''),
      (0x38, ''BLKDEV_NSECTORS''),
      (0x3C, ''BLKDEV_MAX_REQUEST_LENGTH''),
      (0x44, ''NET_OUT_FIFO_COUNT''),
      (0x4C, ''NET_IN_FIFO_COUNT'')]"

datatype action =
    Open | Perror string | Mmap int u32 | ReadReg u32 | PrintHeader u32 | PrintReg u32 string u32
  | VerdictDead | VerdictAlive nat nat | Munmap | Close int

record system =
  open_result :: int
  mmap_fails :: bool
  word_at :: "u32 \<Rightarrow> u32"

definition ZYNQ_BASE_PADDR :: u32 where "ZYNQ_BASE_PADDR = 0x43C00000"

text \<open>The loop over the table: the actions and the number of all-ones words, from \<open>ones\<close>.\<close>

fun probe_loop :: "(u32 \<Rightarrow> u32) \<Rightarrow> (u32 \<times> string) list \<Rightarrow> nat \<Rightarrow> action list \<times> nat" where
  "probe_loop w [] ones = ([], ones)"
| "probe_loop w ((off, name) # rs) ones =
     (let v = w off;
          ones = (if v = 0xffffffff then ones + 1 else ones);
          (acts, ones) = probe_loop w rs ones
      in (ReadReg off # PrintReg off name v # acts, ones))"

definition probe_main :: "system \<Rightarrow> action list \<times> int" where
  "probe_main S =
     (let fd = open_result S in
      if fd < 0 then ([Open, Perror ''open /dev/mem''], 1)
      else if mmap_fails S then ([Open, Mmap fd ZYNQ_BASE_PADDR, Perror ''mmap'', Close fd], 1)
      else
        let n = length regs;
            (acts, ones) = probe_loop (word_at S) regs 0
        in ([Open, Mmap fd ZYNQ_BASE_PADDR, PrintHeader ZYNQ_BASE_PADDR] @ acts
              @ [if ones = n then VerdictDead else VerdictAlive ones n, Munmap, Close fd], 0))"

lemma probe_loop_eq:
  "probe_loop w rs k =
     (concat (map (\<lambda>(off, name). [ReadReg off, PrintReg off name (w off)]) rs),
      k + length (filter (\<lambda>(off, _). w off = 0xffffffff) rs))"
  by (induction w rs k rule: probe_loop.induct) (auto simp: Let_def)

text \<open>The device accesses among the actions.\<close>

definition reads_of :: "action list \<Rightarrow> u32 list" where
  "reads_of acts = concat (map (\<lambda>a. case a of ReadReg off \<Rightarrow> [off] | _ \<Rightarrow> []) acts)"

lemma reads_of_simps [simp]:
  "reads_of [] = []" "reads_of (a # as) = (case a of ReadReg off \<Rightarrow> [off] | _ \<Rightarrow> []) @ reads_of as"
  "reads_of (as @ bs) = reads_of as @ reads_of bs"
  by (simp_all add: reads_of_def)

lemma filter_all_length: "length (filter P xs) = length xs \<longleftrightarrow> (\<forall>x \<in> set xs. P x)"
  using length_filter_less [of _ xs P] by (metis filter_True order_less_irrefl)

definition all_ones :: "system \<Rightarrow> bool" where
  "all_ones S \<longleftrightarrow> (\<forall>(off, _) \<in> set regs. word_at S off = 0xffffffff)"

lemma probe_main_ok:
  assumes "0 \<le> open_result S" "\<not> mmap_fails S"
  shows "probe_main S = ([Open, Mmap (open_result S) ZYNQ_BASE_PADDR, PrintHeader ZYNQ_BASE_PADDR]
    @ concat (map (\<lambda>(off, name). [ReadReg off, PrintReg off name (word_at S off)]) regs)
    @ [if all_ones S then VerdictDead
       else VerdictAlive (length (filter (\<lambda>(off, _). word_at S off = 0xffffffff) regs)) (length regs),
       Munmap, Close (open_result S)], 0)"
  using assms filter_all_length [of "\<lambda>(off, _). word_at S off = 0xffffffff" regs]
  by (auto simp: probe_main_def Let_def probe_loop_eq all_ones_def)

text \<open>
  The probe reports dead logic exactly when it could map the registers and every one of
  the ten reads all ones.
\<close>

lemma verdict_dead_iff:
  "VerdictDead \<in> set (fst (probe_main S)) \<longleftrightarrow>
     0 \<le> open_result S \<and> \<not> mmap_fails S
     \<and> list_all (\<lambda>off. word_at S off = 0xffffffff) [0x04, 0x0C, 0x10, 0x24, 0x2C, 0x34, 0x38, 0x3C, 0x44, 0x4C]"
proof (cases "0 \<le> open_result S \<and> \<not> mmap_fails S")
  case True
  have "VerdictDead \<notin> set (concat (map (\<lambda>(off, name). [ReadReg off, PrintReg off name (word_at S off)]) regs))"
    by auto
  with True show ?thesis by (auto simp: probe_main_ok all_ones_def regs_def)
next
  case False
  then show ?thesis by (auto simp: probe_main_def Let_def)
qed

text \<open>
  The probe reads exactly the ten status registers, each once and in order, and nothing
  when it could not map them: no FIFO data register, whose read would take a word from the host.
\<close>

lemma probe_reads_each_register_once:
  "reads_of (fst (probe_main S)) =
     (if 0 \<le> open_result S \<and> \<not> mmap_fails S
      then [0x04, 0x0C, 0x10, 0x24, 0x2C, 0x34, 0x38, 0x3C, 0x44, 0x4C] else [])"
proof (cases "0 \<le> open_result S \<and> \<not> mmap_fails S")
  case True
  then show ?thesis by (simp add: probe_main_ok regs_def)
next
  case False
  then show ?thesis by (auto simp: probe_main_def Let_def)
qed

text \<open>
  A descriptor that was opened is closed exactly once and last, on every path; the
  mapping is released when there is one, and the exit status is 0 only then.
\<close>

lemma probe_closes_what_it_opened:
  "count_list (fst (probe_main S)) (Close (open_result S)) = (if 0 \<le> open_result S then 1 else 0)
   \<and> (last (fst (probe_main S)) = Close (open_result S) \<longleftrightarrow> 0 \<le> open_result S)
   \<and> (snd (probe_main S) = 0 \<longleftrightarrow> 0 \<le> open_result S \<and> \<not> mmap_fails S)
   \<and> (Munmap \<in> set (fst (probe_main S)) \<longleftrightarrow> 0 \<le> open_result S \<and> \<not> mmap_fails S)"
proof (cases "0 \<le> open_result S \<and> \<not> mmap_fails S")
  case True
  then show ?thesis by (simp add: probe_main_ok regs_def)
next
  case False
  then show ?thesis by (auto simp: probe_main_def Let_def)
qed

text \<open>
  C34: The probe disturbs nothing and its verdict is right: it reads exactly the ten status
  registers, each once and in order, and no FIFO data register, whose read would take a word from the
  host; it reports dead logic exactly when it could map the registers and all ten read all ones; a
  descriptor that was opened is closed exactly once and last, and the mapping is released.
\<close>

theorem probe_correct:
  "reads_of (fst (probe_main S)) =
     (if 0 \<le> open_result S \<and> \<not> mmap_fails S
      then [0x04, 0x0C, 0x10, 0x24, 0x2C, 0x34, 0x38, 0x3C, 0x44, 0x4C] else [])
   \<and> (VerdictDead \<in> set (fst (probe_main S)) \<longleftrightarrow>
       0 \<le> open_result S \<and> \<not> mmap_fails S
       \<and> list_all (\<lambda>off. word_at S off = 0xffffffff) [0x04, 0x0C, 0x10, 0x24, 0x2C, 0x34, 0x38, 0x3C, 0x44, 0x4C])
   \<and> count_list (fst (probe_main S)) (Close (open_result S)) = (if 0 \<le> open_result S then 1 else 0)
   \<and> (last (fst (probe_main S)) = Close (open_result S) \<longleftrightarrow> 0 \<le> open_result S)
   \<and> (Munmap \<in> set (fst (probe_main S)) \<longleftrightarrow> 0 \<le> open_result S \<and> \<not> mmap_fails S)"
  by (intro conjI probe_reads_each_register_once verdict_dead_iff)
     (use probe_closes_what_it_opened [of S] in blast)+

end
