(* ===== verification/HtifNested.thy ===== *)
theory HtifNested
  imports Htif "HOL-Library.Multiset"
begin

text \<open>
  The console driver \<open>xv6/htif.c\<close> load by load and store by store: \<open>htif_send\<close> as a frame with a
  program counter, interrupt handlers that call it again while it is running (\<open>nest_step\<close>), two harts
  that run it at the same time (\<open>race\<close>), and a poll of the keyboard that is interrupted by another.
\<close>

section \<open>htif_send in steps\<close>

text \<open>
  The places of \<open>htif_send\<close>: before a load of the first waiting loop, before the store, before a load of
  the second waiting loop, at its end. The host may run between any two steps.
\<close>

datatype send_pc = WaitFree | StoreCmd | WaitTaken | Returned

record frame =
  at :: send_pc
  fdev :: u64
  fcmd :: u64
  fpayload :: u64

definition send_call :: "u64 \<Rightarrow> u64 \<Rightarrow> u64 \<Rightarrow> frame" where
  "send_call dev cmd payload = \<lparr>at = WaitFree, fdev = dev, fcmd = cmd, fpayload = payload\<rparr>"

definition frame_word :: "frame \<Rightarrow> u64" where
  "frame_word f = command (fdev f) (fcmd f) (fpayload f)"

definition send_step :: "frame \<Rightarrow> htif \<Rightarrow> frame \<times> htif" where
  "send_step f h =
     (case at f of
        WaitFree \<Rightarrow> (if tohost h \<noteq> 0 then f else f\<lparr>at := StoreCmd\<rparr>, h)
      | StoreCmd \<Rightarrow> (f\<lparr>at := WaitTaken\<rparr>, h\<lparr>tohost := frame_word f\<rparr>)
      | WaitTaken \<Rightarrow> (if tohost h \<noteq> 0 then f else f\<lparr>at := Returned\<rparr>, h)
      | Returned \<Rightarrow> (f, h))"

text \<open>\<open>n\<close> steps of a call that nothing interrupts; the host takes a turn before each load.\<close>

fun send_run :: "nat \<Rightarrow> frame \<Rightarrow> htif \<Rightarrow> frame \<times> htif" where
  "send_run 0 f h = (f, h)"
| "send_run (Suc n) f h =
     (let h = (if at f = WaitFree \<or> at f = WaitTaken then host_turn h else h);
          (f, h) = send_step f h
      in send_run n f h)"

lemma send_run_returned: "at f = Returned \<Longrightarrow> send_run n f h = (f, h)"
  by (induction n) (simp_all add: send_step_def)

text \<open>A waiting loop of the code and of the machine.\<close>

lemma spin_send_run:
  assumes "spin load_tohost (\<lambda>v. v = 0) h = Some r" "at f = WaitFree \<or> at f = WaitTaken"
  shows "\<exists>n. send_run n f h = (f\<lparr>at := if at f = WaitFree then StoreCmd else Returned\<rparr>, snd r)"
  using assms
proof (induction rule: spin_induct)
  case (ready h v h')
  then have "h' = host_turn h" "tohost h' = 0" by (auto simp: load_tohost_def Let_def)
  with ready(3) show ?case
    by (intro exI [of _ "Suc 0"]) (auto simp: send_step_def)
next
  case (wait h v h' r)
  then have h': "h' = host_turn h" "tohost h' \<noteq> 0" by (auto simp: load_tohost_def Let_def)
  from wait(3,4) obtain n where
    "send_run n f h' = (f\<lparr>at := if at f = WaitFree then StoreCmd else Returned\<rparr>, snd r)" by blast
  with wait(4) h' show ?case by (intro exI [of _ "Suc n"]) (auto simp: send_step_def)
qed

lemma send_run_add: "send_run (m + n) f h = (case send_run m f h of (f, h) \<Rightarrow> send_run n f h)"
  by (induction m arbitrary: f h) (auto simp: Let_def split: prod.splits)

lemma spin_now:
  "spin load_tohost (\<lambda>v. v = 0) h =
     (if tohost (host_turn h) = 0 then Some (0, host_turn h) else spin load_tohost (\<lambda>v. v = 0) (host_turn h))"
  by (simp add: spin.simps [of _ _ h] load_tohost_def Let_def)

lemma send_run_spin:
  assumes "send_run n f h = (f', h')" "at f' = Returned"
  shows "at f = WaitTaken \<Longrightarrow> map_option snd (spin load_tohost (\<lambda>v. v = 0) h) = Some h'"
    and "at f = StoreCmd \<Longrightarrow>
      map_option snd (spin load_tohost (\<lambda>v. v = 0) (h\<lparr>tohost := frame_word f\<rparr>)) = Some h'"
    and "at f = WaitFree \<Longrightarrow> htif_send (fdev f) (fcmd f) (fpayload f) h = Some h'"
  using assms
proof (induction n arbitrary: f h)
  case 0
  { case 1 with 0 show ?case by simp next case 2 with 0 show ?case by simp next case 3 with 0 show ?case by simp }
next
  case (Suc n)
  { case 1
    then show ?case using Suc.IH(1) [of f "host_turn h"] send_run_returned
      by (cases "tohost (host_turn h) = 0")
         (auto simp: send_step_def spin_now [of h])
  next
    case 2
    then show ?case using Suc.IH(1) [of "f\<lparr>at := WaitTaken\<rparr>" "h\<lparr>tohost := frame_word f\<rparr>"]
      by (simp add: send_step_def)
  next
    case 3
    then show ?case
      using Suc.IH(3) [of f "host_turn h"] Suc.IH(2) [of "f\<lparr>at := StoreCmd\<rparr>" "host_turn h"]
      by (cases "tohost (host_turn h) = 0")
         (auto simp: send_step_def frame_word_def htif_send_def spin_now [of h]) }
qed

text \<open>
  The two models of \<open>htif_send\<close> agree: it returns with state \<open>h'\<close> exactly when some number of
  uninterrupted steps takes the call to its end with that state. So what follows on interrupted and
  concurrent calls is about the function of \<open>Htif\<close>.
\<close>

lemma send_steps_refine:
  "htif_send dev cmd payload h = Some h' \<longleftrightarrow>
   (\<exists>n. send_run n (send_call dev cmd payload) h = ((send_call dev cmd payload)\<lparr>at := Returned\<rparr>, h'))"
proof
  assume "htif_send dev cmd payload h = Some h'"
  then obtain r1 r2 where r: "spin load_tohost (\<lambda>v. v = 0) h = Some r1"
     "spin load_tohost (\<lambda>v. v = 0) ((snd r1)\<lparr>tohost := command dev cmd payload\<rparr>) = Some r2" "snd r2 = h'"
    by (auto simp: htif_send_def Let_def split: option.splits prod.splits)
  let ?f = "send_call dev cmd payload"
  obtain n1 where n1: "send_run n1 ?f h = (?f\<lparr>at := StoreCmd\<rparr>, snd r1)"
    using spin_send_run [OF r(1), of ?f] by (auto simp: send_call_def)
  obtain n2 where n2: "send_run n2 (?f\<lparr>at := WaitTaken\<rparr>) ((snd r1)\<lparr>tohost := command dev cmd payload\<rparr>)
      = (?f\<lparr>at := Returned\<rparr>, h')"
    using spin_send_run [OF r(2), of "?f\<lparr>at := WaitTaken\<rparr>"] r(3) by (auto simp: send_call_def)
  have "send_run (n1 + Suc n2) ?f h = (?f\<lparr>at := Returned\<rparr>, h')"
    unfolding send_run_add n1 using n2 by (simp add: send_step_def frame_word_def send_call_def)
  then show "\<exists>n. send_run n ?f h = (?f\<lparr>at := Returned\<rparr>, h')" ..
next
  assume "\<exists>n. send_run n (send_call dev cmd payload) h = ((send_call dev cmd payload)\<lparr>at := Returned\<rparr>, h')"
  then show "htif_send dev cmd payload h = Some h'"
    using send_run_spin(3) [of _ "send_call dev cmd payload"] by (auto simp: send_call_def)
qed

section \<open>Calls from interrupt handlers\<close>

text \<open>
  One hart: the running call is the top of the stack, the calls it interrupted are below it.
  \<open>stored\<close> lists the commands written to \<open>tohost\<close> and \<open>completed\<close> those of the calls that returned, in order.
\<close>

record machine =
  stack :: "frame list"
  world :: htif
  stored :: "u64 list"
  completed :: "u64 list"

definition idle_machine :: "htif \<Rightarrow> machine" where
  "idle_machine h = \<lparr>stack = [], world = h, stored = [], completed = []\<rparr>"

text \<open>
  The host acts or a key is typed; a call starts, on top of whatever is running; the running call
  makes a step; it returns to the interrupted one.
\<close>

inductive nest_step :: "machine \<Rightarrow> machine \<Rightarrow> bool" where
  host: "nest_step m (m\<lparr>world := host_do a (world m)\<rparr>)"
| call: "is_write (command dev cmd payload) \<or> is_read (command dev cmd payload) \<Longrightarrow>
     nest_step m (m\<lparr>stack := send_call dev cmd payload # stack m\<rparr>)"
| run: "stack m = f # fs \<Longrightarrow> send_step f (world m) = (f', h') \<Longrightarrow>
     nest_step m (m\<lparr>stack := f' # fs, world := h',
       stored := stored m @ (if at f = StoreCmd then [frame_word f] else [])\<rparr>)"
| return: "stack m = f # fs \<Longrightarrow> at f = Returned \<Longrightarrow>
     nest_step m (m\<lparr>stack := fs, completed := completed m @ [frame_word f]\<rparr>)"

inductive nest_reachable :: "htif \<Rightarrow> machine \<Rightarrow> bool" for h0 where
  idle: "nest_reachable h0 (idle_machine h0)"
| step: "nest_reachable h0 m \<Longrightarrow> nest_step m m' \<Longrightarrow> nest_reachable h0 m'"

text \<open>The characters of the write commands in a list of commands.\<close>

definition chars :: "u64 list \<Rightarrow> u8 list" where
  "chars ws = map (\<lambda>w. ucast (cmd_payload w)) (filter is_write ws)"

definition past_store :: "frame \<Rightarrow> bool" where
  "past_store f \<longleftrightarrow> at f = WaitTaken \<or> at f = Returned"

text \<open>The running call is about to store, or has ended, only when \<open>tohost\<close> is free.\<close>

definition nest_inv :: "htif \<Rightarrow> machine \<Rightarrow> bool" where
  "nest_inv h0 m \<longleftrightarrow>
     committed (world m) = committed h0 @ chars (stored m)
   \<and> asked (world m) = asked h0 + length (filter is_read (stored m))
   \<and> mset (stored m) = mset (completed m) + mset (map frame_word (filter past_store (stack m)))
   \<and> (\<forall>f \<in> set (stack m). is_write (frame_word f) \<or> is_read (frame_word f))
   \<and> (case stack m of [] \<Rightarrow> tohost (world m) = 0
      | f # fs \<Rightarrow> (at f = StoreCmd \<or> at f = Returned \<longrightarrow> tohost (world m) = 0))"

lemma host_do_free: "tohost h = 0 \<Longrightarrow> tohost (host_do a h) = 0"
  by (cases a) (auto simp: host_consume_def host_reply_def)

lemma host_do_committed: "committed (host_do a h) = committed h"
proof -
  have "kept (host_do a (h\<lparr>sched := sched h\<rparr>)) = kept (h\<lparr>sched := a # sched h\<rparr>)"
    by (rule host_do_kept)
  then show ?thesis by (simp add: kept_def committed_def del: host_do.simps)
qed

lemma store_command:
  assumes "tohost h = 0" "is_write w \<or> is_read w"
  shows "committed (h\<lparr>tohost := w\<rparr>) = committed h @ chars [w]"
    "asked (h\<lparr>tohost := w\<rparr>) = asked h + length (filter is_read [w])"
proof -
  have "w \<noteq> 0" using assms(2) by (auto simp: is_write_def is_read_def cmd_dev_def)
  with assms show "committed (h\<lparr>tohost := w\<rparr>) = committed h @ chars [w]"
    "asked (h\<lparr>tohost := w\<rparr>) = asked h + length (filter is_read [w])"
    by (auto simp: committed_def asked_def chars_def)
qed

lemma send_step_frame:
  assumes "send_step f h = (f', h')"
  shows "frame_word f' = frame_word f" 
    "at f = StoreCmd \<Longrightarrow> h' = h\<lparr>tohost := frame_word f\<rparr> \<and> at f' = WaitTaken"
    "at f \<noteq> StoreCmd \<Longrightarrow> h' = h \<and> past_store f' = past_store f"
    "at f \<noteq> StoreCmd \<Longrightarrow> at f' = StoreCmd \<or> at f' = Returned \<Longrightarrow> at f = Returned \<or> tohost h = 0"
  using assms by (auto simp: send_step_def frame_word_def past_store_def split: send_pc.splits if_splits)

lemma nest_step_inv:
  assumes "nest_step m m'" "nest_inv h0 m"
  shows "nest_inv h0 m'"
  using assms
proof (cases rule: nest_step.cases)
  case (host a)
  with assms(2) show ?thesis
    by (auto simp: nest_inv_def host_do_committed host_do_asked host_do_free simp del: host_do.simps split: list.splits)
next
  case (call dev cmd payload)
  with assms(2) show ?thesis
    by (auto simp: nest_inv_def send_call_def frame_word_def past_store_def)
next
  case (run f fs f' h')
  note s = send_step_frame [OF run(3)]
  show ?thesis
  proof (cases "at f = StoreCmd")
    case True
    have "tohost (world m) = 0" "is_write (frame_word f) \<or> is_read (frame_word f)"
      using assms(2) run(2) True by (auto simp: nest_inv_def)
    from store_command [OF this] s(1,2) True run assms(2) show ?thesis
      by (auto simp: nest_inv_def past_store_def chars_def)
  next
    case False
    with s run assms(2) show ?thesis by (auto simp: nest_inv_def)
  qed
next
  case (return f fs)
  with assms(2) show ?thesis
    by (auto simp: nest_inv_def past_store_def split: list.splits)
qed

text \<open>
  C12: On one hart \<open>htif_send\<close> may be interrupted anywhere, to any depth, by handlers that call it
  again: no command is ever overwritten. The characters on the console or on their way are those of all
  commands stored, in the order of the stores; the same holds of the read commands; a call that
  returned has stored its command once; and when no call is running all of them have been consumed.
\<close>

theorem nested_sends_lossless:
  assumes "nest_reachable h0 m" "tohost h0 = 0"
  shows "committed (world m) = out h0 @ chars (stored m)
    \<and> asked (world m) = asked h0 + length (filter is_read (stored m))
    \<and> mset (completed m) \<subseteq># mset (stored m)
    \<and> (stack m = [] \<longrightarrow> out (world m) = out h0 @ chars (stored m) \<and> mset (stored m) = mset (completed m))"
proof -
  have "nest_inv h0 m"
    using assms
  proof induction
    case idle
    then show ?case by (simp add: nest_inv_def idle_machine_def chars_def)
  next
    case (step m m')
    then show ?case by (blast intro: nest_step_inv)
  qed
  with assms(2) show ?thesis by (auto simp: nest_inv_def)
qed


section \<open>Two harts\<close>

text \<open>
  Two harts in \<open>htif_send\<close> at once. \<open>uartputc_sync\<close> takes no lock, so nothing excludes this on a machine
  with more than one hart.
\<close>

datatype turn = HartA | HartB | HostTurn

fun race :: "turn list \<Rightarrow> frame \<Rightarrow> frame \<Rightarrow> htif \<Rightarrow> frame \<times> frame \<times> htif" where
  "race [] f g h = (f, g, h)"
| "race (HartA # ts) f g h = (case send_step f h of (f, h) \<Rightarrow> race ts f g h)"
| "race (HartB # ts) f g h = (case send_step g h of (g, h) \<Rightarrow> race ts f g h)"
| "race (HostTurn # ts) f g h = race ts f g (host_turn h)"

definition putc_call :: "u8 \<Rightarrow> frame" where
  "putc_call c = send_call HTIF_DEV_BCD HTIF_CMD_WRITE (ucast c)"

text \<open>
  Without a lock two harts lose output: there is an interleaving of two calls of
  \<open>uartputc_sync\<close> in which both find \<open>tohost\<close> free before either stores. Both return, but only the second
  character reaches the console.
\<close>

theorem two_harts_lose_a_character:
  assumes "tohost h = 0" "sched h = []"
  shows "\<exists>ts f g h'. race ts (putc_call a) (putc_call b) h = (f, g, h') \<and> at f = Returned \<and> at g = Returned
    \<and> tohost h' = 0 \<and> out h' = out h @ [b]"
proof -
  let ?ts = "[HartA, HartB, HartA, HartB, HostTurn, HartA, HartB]"
  have nz: "command 1 1 (ucast (c :: u8)) \<noteq> 0" for c
    using write_command(1) [of c] by (auto simp: is_write_def cmd_dev_def)
  show ?thesis
    using assms nz
    by (intro exI [of _ ?ts])
       (simp add: putc_call_def send_call_def send_step_def frame_word_def bcd_defs host_turn_def host_consume_def host_reply_def)
qed

section \<open>A poll inside a poll\<close>

text \<open>\<open>htif_getc\<close> after its load of \<open>fromhost\<close>.\<close>

definition getc_rest :: "u64 \<Rightarrow> htif \<Rightarrow> (int \<times> htif) option" where
  "getc_rest fh h =
     (if fh \<noteq> 0 then
        let h = h\<lparr>fromhost := 0\<rparr>;
            h = h\<lparr>read_pending := 0\<rparr>
        in if fh AND 0x100 \<noteq> 0 then Some (uint (fh AND 0xff), h) else Some (- 1, h)
      else if read_pending h = 0 then
        (case htif_send HTIF_DEV_BCD HTIF_CMD_READ 0 h of
           None \<Rightarrow> None
         | Some h \<Rightarrow> Some (- 1, h\<lparr>read_pending := 1\<rparr>))
      else Some (- 1, h))"

lemma getc_parts: "htif_getc h = (case load_fromhost h of (fh, h) \<Rightarrow> getc_rest fh h)"
  by (simp add: htif_getc_def getc_rest_def Let_def)

text \<open>
  \<open>uartintr\<close> in which \<open>handler\<close> runs right after the first load of \<open>fromhost\<close>; \<open>echo\<close> is the line discipline
  that shows every character.
\<close>

definition interrupted_poll :: "(u32 \<Rightarrow> 'w \<times> htif \<Rightarrow> ('w \<times> htif) option) \<Rightarrow> ('w \<times> htif \<Rightarrow> ('w \<times> htif) option) \<Rightarrow>
    'w \<times> htif \<Rightarrow> ('w \<times> htif) option" where
  "interrupted_poll consoleintr handler s =
     (let (fh, h) = load_fromhost (snd s) in
      case handler (fst s, h) of None \<Rightarrow> None | Some s \<Rightarrow>
      case getc_rest fh (snd s) of None \<Rightarrow> None | Some (c, h) \<Rightarrow>
      if c \<noteq> - 1 then
        (case consoleintr (word_of_int c) (fst s, h) of None \<Rightarrow> None | Some s \<Rightarrow> uartintr consoleintr s)
      else Some (fst s, h))"

definition echo :: "u32 \<Rightarrow> 'w \<times> htif \<Rightarrow> ('w \<times> htif) option" where
  "echo c s = map_option (Pair (fst s)) (uartputc_sync c (snd s))"

lemma interrupted_poll_idle: "interrupted_poll ci Some s = uartintr ci s"
  by (simp add: interrupted_poll_def uartintr.simps [of _ s] getc_parts split: prod.splits option.splits)

text \<open>A console between two host turns that change nothing, and the console with one read outstanding.\<close>

definition console_at :: "u64 \<Rightarrow> int \<Rightarrow> u8 list \<Rightarrow> nat \<Rightarrow> u8 list \<Rightarrow> htif" where
  "console_at fh pend ks r os = \<lparr>tohost = 0, fromhost = fh, read_pending = pend, lock_calls = [], out = os, keys = ks,
     reads = r, unknown = [], sched = []\<rparr>"

lemma host_turn_free: "sched h = [] \<Longrightarrow> tohost (host_turn h) = 0"
  by (simp add: host_turn_def host_consume_def host_reply_def)

lemma send_prompt:
  assumes "sched h = []"
  shows "htif_send dev cmd payload h = Some (host_turn ((host_turn h)\<lparr>tohost := command dev cmd payload\<rparr>))"
  using assms host_turn_prompt [OF assms]
  by (simp add: htif_send_def spin_now host_turn_free)

lemma commands_nonzero: "command 1 1 (ucast (c :: u8)) \<noteq> 0" "command 1 0 0 \<noteq> 0"
  using write_command(1) [of c] read_command(1) by (auto simp: is_write_def is_read_def cmd_dev_def)

lemmas host_simps = host_turn_def host_consume_def host_reply_def commands_nonzero

lemma console_at_echo:
  assumes "fh \<noteq> 0 \<or> r = 0 \<or> ks = []"
  shows "echo (ucast (c :: u8)) (w, console_at fh pend ks r os) = Some (w, console_at fh pend ks r (os @ [c]))"
proof -
  have "(ucast (ucast c :: u32) :: u8) = c" by (rule bit_word_eqI) (simp add: bit_ucast_iff)
  then show ?thesis
    using assms by (auto simp: echo_def uartputc_sync_def u32_low_byte send_prompt bcd_defs console_at_def host_simps)
qed

lemma console_at_reply:
  "getc_rest (0x100 OR ucast (c :: u8)) (console_at fh pend ks r os) = Some (uint c, console_at 0 0 ks r os)"
  by (simp add: getc_rest_def console_at_def uint_u8_through_u64)

lemma console_at_load:
  assumes "fh \<noteq> 0 \<or> r = 0 \<or> ks = []"
  shows "load_fromhost (console_at fh pend ks r os) = (fh, console_at fh pend ks r os)"
  using assms by (auto simp: load_fromhost_eq console_at_def host_simps)

lemma console_at_ask:
  "getc_rest 0 (console_at 0 0 [] 0 os) = Some (- 1, console_at 0 1 [] 1 os)"
  "getc_rest 0 (console_at 0 0 (d # ks) 0 os) = Some (- 1, console_at (0x100 OR ucast d) 1 ks 0 os)"
  by (simp_all add: getc_rest_def send_prompt bcd_defs console_at_def host_simps not_write_and_read)

lemma console_at_poll:
  "uartintr echo (w, console_at 0 0 [] 0 os) = Some (w, console_at 0 1 [] 1 os)"
  "uartintr echo (w, console_at 0 0 (d # ks) 0 os) = Some (w, console_at (0x100 OR ucast d) 1 ks 0 os)"
  "uartintr echo (w, console_at (0x100 OR ucast (c :: u8)) 1 (d # ks) 0 os) =
     Some (w, console_at (0x100 OR ucast d) 1 ks 0 (os @ [c]))"
proof -
  show 1: "uartintr echo (w, console_at 0 0 [] 0 os) = Some (w, console_at 0 1 [] 1 os)"
    and 2: "uartintr echo (w, console_at 0 0 (d # ks) 0 os) = Some (w, console_at (0x100 OR ucast d) 1 ks 0 os)" for os
    by (simp_all add: uartintr.simps [of _ "(w, console_at 0 0 _ 0 os)"] getc_parts console_at_load console_at_ask)
  show "uartintr echo (w, console_at (0x100 OR ucast c) 1 (d # ks) 0 os) =
     Some (w, console_at (0x100 OR ucast d) 1 ks 0 (os @ [c]))"
    by (simp add: uartintr.simps [of _ "(w, console_at (0x100 OR ucast c) 1 (d # ks) 0 os)"] getc_parts console_at_load
        console_at_reply received_char console_at_echo 2)
qed

text \<open>
  A poll must not be interrupted by another poll. The keys \<open>c\<close> and \<open>d\<close> wait and one read is
  outstanding; the outer poll loads the reply with \<open>c\<close>, and a timer tick polls before it clears \<open>fromhost\<close>.
  Then \<open>c\<close> is delivered twice and \<open>d\<close> never; uninterrupted, the poll delivers \<open>c\<close> once and keeps \<open>d\<close> for the
  next. So the poll in the idle loop of the scheduler is correct only with interrupts off.
\<close>

theorem poll_not_reentrant:
  "load_fromhost (console_at 0 1 [c, d] 1 []) = (0x100 OR ucast c, console_at (0x100 OR ucast c) 1 [d] 0 [])
   \<and> interrupted_poll echo (uartintr echo) (w, console_at 0 1 [c, d] 1 []) = Some (w, console_at 0 1 [] 1 [c, c])
   \<and> uartintr echo (w, console_at 0 1 [c, d] 1 []) = Some (w, console_at (0x100 OR ucast d) 1 [] 0 [c])"
proof (intro conjI)
  show l: "load_fromhost (console_at 0 1 [c, d] 1 []) = (0x100 OR ucast c, console_at (0x100 OR ucast c) 1 [d] 0 [])"
    by (simp add: load_fromhost_eq console_at_def host_simps)
  show "interrupted_poll echo (uartintr echo) (w, console_at 0 1 [c, d] 1 []) = Some (w, console_at 0 1 [] 1 [c, c])"
    unfolding interrupted_poll_def snd_conv l by (simp add: console_at_poll console_at_reply received_char console_at_echo)
  show "uartintr echo (w, console_at 0 1 [c, d] 1 []) = Some (w, console_at (0x100 OR ucast d) 1 [] 0 [c])"
    unfolding uartintr.simps [of _ "(w, console_at 0 1 [c, d] 1 [])"] snd_conv getc_parts l
    by (simp add: console_at_reply received_char console_at_echo console_at_poll)
qed

section \<open>Witnesses\<close>

text \<open>Runs of the one-hart machine as lists of actions; an action that is not possible does nothing.\<close>

datatype nest_act = Host host_act | Putc u8 | Run | Return

fun nest_do :: "nest_act \<Rightarrow> machine \<Rightarrow> machine" where
  "nest_do (Host a) m = m\<lparr>world := host_do a (world m)\<rparr>"
| "nest_do (Putc c) m = m\<lparr>stack := putc_call c # stack m\<rparr>"
| "nest_do Run m = (case stack m of [] \<Rightarrow> m | f # fs \<Rightarrow>
     (case send_step f (world m) of (f', h') \<Rightarrow>
        m\<lparr>stack := f' # fs, world := h',
          stored := stored m @ (if at f = StoreCmd then [frame_word f] else [])\<rparr>))"
| "nest_do Return m = (case stack m of [] \<Rightarrow> m | f # fs \<Rightarrow>
     if at f = Returned then m\<lparr>stack := fs, completed := completed m @ [frame_word f]\<rparr> else m)"

lemma nest_do_reachable: "nest_reachable h0 m \<Longrightarrow> nest_reachable h0 (nest_do a m)"
proof (cases a)
  case (Host b)
  assume "nest_reachable h0 m"
  with Host show ?thesis by (auto intro: nest_reachable.step nest_step.host simp del: host_do.simps)
next
  case (Putc c)
  assume "nest_reachable h0 m"
  moreover have "nest_step m (nest_do a m)"
    unfolding Putc nest_do.simps putc_call_def
    by (rule nest_step.call) (simp add: bcd_defs)
  ultimately show ?thesis by (rule nest_reachable.step)
next
  case Run
  assume m: "nest_reachable h0 m"
  show ?thesis
  proof (cases "stack m")
    case Nil
    with m Run show ?thesis by simp
  next
    case (Cons f fs)
    obtain f' h' where s: "send_step f (world m) = (f', h')" by fastforce
    show ?thesis
      unfolding Run nest_do.simps Cons list.case s prod.case
      by (rule nest_reachable.step [OF m nest_step.run [OF Cons s]])
  qed
next
  case Return
  assume "nest_reachable h0 m"
  with Return show ?thesis
    by (auto intro: nest_reachable.step nest_step.return split: list.splits)
qed

lemma nest_run_reachable: "nest_reachable h0 m \<Longrightarrow> nest_reachable h0 (fold nest_do as m)"
  by (induction as arbitrary: m) (auto intro: nest_do_reachable simp del: nest_do.simps)

text \<open>\<open>A\<close> is interrupted between its last load and its store by a complete \<open>B\<close>.\<close>

definition interrupted_putc :: machine where
  "interrupted_putc = fold nest_do
     [Putc 65, Run, Putc 66, Run, Run, Host Poll, Run, Return, Run, Host Poll, Run, Return]
     (idle_machine (console_at 0 0 [] 0 []))"

lemma interrupted_putc_stored: "stack interrupted_putc = []"
    "stored interrupted_putc = [command 1 1 (ucast (66 :: u8)), command 1 1 (ucast (65 :: u8))]"
  using commands_nonzero(1) [of 65] commands_nonzero(1) [of 66] write_command [of 65] write_command [of 66]
  by (simp_all add: interrupted_putc_def idle_machine_def putc_call_def send_call_def send_step_def
      frame_word_def bcd_defs console_at_def host_consume_def host_reply_def)

theorem nested_sends_lossless_witness: "out (world interrupted_putc) = [66, 65]"
proof -
  have "nest_reachable (console_at 0 0 [] 0 []) interrupted_putc"
    unfolding interrupted_putc_def by (rule nest_run_reachable [OF nest_reachable.idle])
  from nested_sends_lossless [OF this] show ?thesis
    using write_command [of 65] write_command [of 66]
    by (simp add: interrupted_putc_stored chars_def console_at_def)
qed

theorem two_harts_lose_a_character_witness:
  "\<exists>ts f g h'. race ts (putc_call 65) (putc_call 66) (console_at 0 0 [] 0 []) = (f, g, h') \<and> out h' = [66]"
  using two_harts_lose_a_character [of "console_at 0 0 [] 0 []" 65 66] by (auto simp: console_at_def)

end
