(* ===== verification/Start.thy ===== *)
theory Start
  imports Trap
begin

text \<open>
  The part of \<open>start()\<close> (\<open>kernel/start.c\<close>) that \<open>xv6/0001-xv6-rocket-port.patch\<close> shows: delegation, the
  supervisor's interrupt enables, physical memory protection, the timer. Together with the trap
  handler of \<open>Trap\<close> it decides how each trap reaches the supervisor.
\<close>

section \<open>The CSRs that start() writes\<close>

record ctl =
  core :: hart
  medeleg :: u64
  mideleg :: u64
  sie :: u64
  pmpaddr0 :: u64
  pmpcfg0 :: u64

text \<open>
  The core keeps only some bits of \<open>medeleg\<close>: misaligned fetch (0), breakpoint (3), user ecall (8), and
  the page faults of fetch (12), load (13) and store (15); see the comment at \<open>timervec\<close>.
  Which bits of \<open>mideleg\<close> it keeps is a parameter.
\<close>

definition delegable_exceptions :: u64 where
  "delegable_exceptions = push_bit 0 1 OR push_bit 3 1 OR push_bit 8 1 OR push_bit 12 1 OR push_bit 13 1
     OR push_bit 15 1"

definition w_medeleg :: "u64 \<Rightarrow> ctl \<Rightarrow> ctl" where
  "w_medeleg v c = c\<lparr>medeleg := v AND delegable_exceptions\<rparr>"

definition w_mideleg :: "u64 \<Rightarrow> u64 \<Rightarrow> ctl \<Rightarrow> ctl" where
  "w_mideleg delegable_interrupts v c = c\<lparr>mideleg := v AND delegable_interrupts\<rparr>"

definition SIE_SEIE :: u64 where "SIE_SEIE = push_bit 9 1"
definition SIE_STIE :: u64 where "SIE_STIE = push_bit 5 1"
definition SIE_SSIE :: u64 where "SIE_SSIE = push_bit 1 1"

text \<open>From the delegation to the call of \<open>timerinit\<close>.\<close>

definition start :: "u64 \<Rightarrow> u64 \<Rightarrow> u64 \<Rightarrow> ctl \<Rightarrow> ctl" where
  "start delegable_interrupts timer_scratch timervec_addr c =
     (let c = w_medeleg 0xffff c;
          c = w_mideleg delegable_interrupts 0xffff c;
          c = c\<lparr>sie := sie c OR SIE_SEIE OR SIE_STIE OR SIE_SSIE\<rparr>;
          c = c\<lparr>pmpaddr0 := 0x3fffffffffffff\<rparr>;
          c = c\<lparr>pmpcfg0 := 0xf\<rparr>
      in c\<lparr>core := timerinit timer_scratch timervec_addr (core c)\<rparr>)"

section \<open>The architecture\<close>

text \<open>
  A trap taken below M-mode goes to the supervisor when the delegation register for its kind has
  the bit of its cause, otherwise to the M-mode handler, which here is \<open>timervec\<close>.
\<close>

definition delegated :: "u64 \<Rightarrow> ctl \<Rightarrow> bool" where
  "delegated cause c \<longleftrightarrow>
     bit (if bit cause 63 then mideleg c else medeleg c) (unat (put_bit 63 False cause))"

definition take_trap :: "u64 \<Rightarrow> u64 \<Rightarrow> ctl \<Rightarrow> hart" where
  "take_trap cause tval c =
     (if delegated cause c then s_trap cause tval (core c) else timervec (m_trap cause tval (core c)))"

text \<open>
  Entry 0 of the physical memory protection, top of range: the address is below \<open>pmpaddr0\<close>, in units
  of 4 bytes, and the permission bits R, W and X (0, 1, 2) are set.
\<close>

definition pmp_allows_all :: "ctl \<Rightarrow> u64 \<Rightarrow> bool" where
  "pmp_allows_all c a \<longleftrightarrow> drop_bit 3 (pmpcfg0 c) AND 3 = 1 \<and> pmpcfg0 c AND 7 = 7 \<and> drop_bit 2 a < pmpaddr0 c"

section \<open>Every exception reaches the supervisor\<close>

lemma medeleg_stored: "medeleg (start dint ts vec c) = 0xB109"
proof -
  have "(0xffff AND delegable_exceptions :: u64) = 0xB109"
    unfolding delegable_exceptions_def by code_simp
  then show ?thesis by (simp add: start_def w_medeleg_def w_mideleg_def Let_def)
qed

lemma core_start: "core (start dint ts vec c) = timerinit ts vec (core c)"
  by (simp add: start_def w_medeleg_def w_mideleg_def Let_def)

lemma pmp_open:
  assumes "pmpaddr0 c = 0x3fffffffffffff" "pmpcfg0 c = 0xf" "unat a < 2 ^ 56 - 4"
  shows "pmp_allows_all c a"
proof -
  have "drop_bit 3 (0xf :: u64) AND 3 = 1" "(0xf :: u64) AND 7 = 7" by code_simp+
  moreover have "unat (drop_bit 2 a) < unat (0x3fffffffffffff :: u64)"
    unfolding unat_drop_bit_eq unfolding drop_bit_eq_div using assms(3) by simp
  ultimately show ?thesis by (simp add: pmp_allows_all_def assms(1,2) word_less_nat_alt)
qed

text \<open>The machine timer interrupt stays in M-mode.\<close>

lemma mtimer_not_delegated:
  assumes "\<not> bit (mideleg c) 7"
  shows "\<not> delegated 0x8000000000000007 c"
proof -
  have "bit (0x8000000000000007 :: u64) 63" "unat (put_bit 63 False (0x8000000000000007 :: u64)) = 7"
    by code_simp+
  with assms show ?thesis by (simp add: delegated_def)
qed

lemma bit_single: "m < 64 \<Longrightarrow> bit (push_bit m (1 :: u64)) k \<longleftrightarrow> k = m"
  by (simp only: bit_word_push_bit bit_1_iff) auto

lemma bit_B109: "bit (0xB109 :: u64) k \<longleftrightarrow> k \<in> {0, 3, 8, 12, 13, 15}"
proof -
  have "(0xB109 :: u64) = push_bit 0 1 OR (push_bit 3 1 OR (push_bit 8 1 OR (push_bit 12 1 OR (push_bit 13 1
     OR push_bit 15 1))))" by simp
  moreover have "bit (push_bit 0 1 OR (push_bit 3 1 OR (push_bit 8 1 OR (push_bit 12 1 OR (push_bit 13 1
     OR push_bit 15 1)))) :: u64) k \<longleftrightarrow> k = 0 \<or> k = 3 \<or> k = 8 \<or> k = 12 \<or> k = 13 \<or> k = 15"
    unfolding bit_or_iff
    using bit_single [of 0 k] bit_single [of 3 k] bit_single [of 8 k] bit_single [of 12 k]
      bit_single [of 13 k] bit_single [of 15 k]
    by (simp del: push_bit_of_1 push_bit_numeral push_bit_0_id)
  ultimately show ?thesis by simp
qed

lemma exception_cause:
  assumes "\<not> bit cause 63"
  shows "put_bit 63 False cause = cause" "\<not> is_mtimer cause"
proof -
  show "put_bit 63 False cause = cause"
    using assms by (intro bit_word_eqI) (auto simp: bit_put_bit)
  have "0 \<le> sint cause" using assms bit_last_iff [of cause] by simp
  then show "\<not> is_mtimer cause" by (simp add: is_mtimer_def)
qed

text \<open>
  C16: After \<open>start()\<close>, every exception that the kernel or a process raises reaches the supervisor as
  if it had been delegated, although the core delegates only six causes (user ecall and the page
  faults among them): those enter the supervisor directly, and every other one, an illegal
  instruction or a misaligned access for example, enters it through \<open>timervec\<close> in the same state, with
  \<open>mscratch\<close> kept for the next trap.
\<close>

theorem exceptions_reach_supervisor:
  assumes "medeleg c = medeleg (start dint ts vec c0)" "prv (core c) \<noteq> PrivM" "\<not> bit cause 63"
  shows "(delegated cause c \<longleftrightarrow> unat cause \<in> {0, 3, 8, 12, 13, 15})
    \<and> supervisor_equal (save_area (mscratch (core c))) (take_trap cause tval c) (s_trap cause tval (core c))
    \<and> mscratch (take_trap cause tval c) = mscratch (core c)"
proof -
  note cause = exception_cause [OF assms(3)]
  have "delegated cause c \<longleftrightarrow> unat cause \<in> {0, 3, 8, 12, 13, 15}"
    unfolding delegated_def cause(1) assms(1) medeleg_stored using assms(3) bit_B109 by simp
  with delegation_matches [OF assms(2) cause(2)] show ?thesis
    by (auto simp: take_trap_def supervisor_equal_def s_trap_def)
qed

text \<open>
  What \<open>start()\<close> leaves behind: the machine timer interrupt is not delegated and its handler is
  armed, the supervisor's software interrupt, which carries the tick, is enabled in \<open>sie\<close>, and the
  supervisor may read, write and execute every physical address below 2 to the 56 less 4, all of the
  kernel's memory and devices among them.
\<close>

theorem start_prepares_ticks:
  assumes h: "unat (mhartid (core c)) < 8" and ts: "0x80000000 \<le> unat ts" "unat ts < 0x88000000"
    and dint: "\<not> bit dint 7"
  shows "let c' = start dint ts vec c; s = core c' in
      timer_ready (ts + 48 * mhartid (core c)) (CLINT_MTIMECMP (mhartid (core c))) s
    \<and> mtvec s = vec \<and> bit (mie s) 7 \<and> bit (mstatus s) 3
    \<and> \<not> delegated 0x8000000000000007 c' \<and> bit (sie c') 1
    \<and> (\<forall>a. unat a < 2 ^ 56 - 4 \<longrightarrow> pmp_allows_all c' a)"
proof -
  let ?c = "start dint ts vec c"
  have core: "core ?c = timerinit ts vec (core c)" by (rule core_start)
  have fields: "mideleg ?c = 0xffff AND dint" "sie ?c = sie c OR SIE_SEIE OR SIE_STIE OR SIE_SSIE"
      "pmpaddr0 ?c = 0x3fffffffffffff" "pmpcfg0 ?c = 0xf"
    by (simp_all add: start_def w_medeleg_def w_mideleg_def Let_def)
  have "\<not> delegated 0x8000000000000007 ?c"
    by (rule mtimer_not_delegated) (use dint in \<open>simp add: fields(1) bit_and_iff\<close>)
  moreover have "bit (sie ?c) 1"
    unfolding fields(2) SIE_SSIE_def bit_or_iff bit_single [of 1, simplified] by simp
  moreover have "pmp_allows_all ?c a" if "unat a < 2 ^ 56 - 4" for a
    using pmp_open [OF fields(3,4) that] .
  ultimately show ?thesis
    using timerinit_facts [OF h ts, of vec] core by (simp add: Let_def)
qed

section \<open>Witnesses\<close>

definition reset_ctl :: ctl where
  "reset_ctl = \<lparr>core = reset_hart, medeleg = 0, mideleg = 0, sie = 0, pmpaddr0 = 0, pmpcfg0 = 0\<rparr>"

theorem exceptions_reach_supervisor_witness:
  "supervisor_equal (save_area 0) (take_trap 2 0 (reset_ctl\<lparr>medeleg := 0xB109\<rparr>)) (s_trap 2 0 reset_hart)"
  using exceptions_reach_supervisor [of "reset_ctl\<lparr>medeleg := 0xB109\<rparr>" 0 0 0 reset_ctl 2 0]
  by (simp add: medeleg_stored reset_ctl_def reset_hart_def)

theorem start_prepares_ticks_witness:
  "bit (sie (start 0x222 0x80009000 0x80005100 reset_ctl)) 1
   \<and> pmp_allows_all (start 0x222 0x80009000 0x80005100 reset_ctl) 0x10015000"
proof -
  have "\<not> bit (0x222 :: u64) 7" by code_simp
  from start_prepares_ticks [OF _ _ _ this, of reset_ctl "0x80009000" "0x80005100"] show ?thesis
    by (simp add: Let_def reset_ctl_def reset_hart_def)
qed

end
