(* ===== verification/Tick.thy ===== *)
theory Tick
  imports Trap Htif
begin

text \<open>
  How console input reaches the kernel: HTIF has no interrupt, so \<open>clockintr\<close> (\<open>kernel/trap.c\<close>) polls on
  every timer tick and the scheduler (\<open>kernel/proc.c\<close>) polls whenever it finds nothing to run. A tick
  goes from the machine timer interrupt through \<open>timervec\<close> of \<open>Trap\<close> to \<open>devintr\<close> and the driver of \<open>Htif\<close>.
\<close>

section \<open>The polls\<close>

text \<open>\<open>count_tick\<close> is the part of \<open>clockintr\<close> that the patch does not show; it counts the tick.\<close>

definition clockintr :: "(hart \<Rightarrow> hart) \<Rightarrow> (u32 \<Rightarrow> 'w \<times> htif \<Rightarrow> ('w \<times> htif) option) \<Rightarrow>
    hart \<Rightarrow> 'w \<times> htif \<Rightarrow> (hart \<times> 'w \<times> htif) option" where
  "clockintr count_tick consoleintr s h =
     (let s = count_tick s in map_option (\<lambda>h. (s, h)) (uartintr consoleintr h))"

text \<open>The end of a round of \<open>scheduler\<close> over the process table, in which \<open>found\<close> processes ran.\<close>

definition scheduler_idle :: "(u32 \<Rightarrow> 'w \<times> htif \<Rightarrow> ('w \<times> htif) option) \<Rightarrow> int \<Rightarrow>
    'w \<times> htif \<Rightarrow> ('w \<times> htif) option" where
  "scheduler_idle consoleintr found h = (if found = 0 then uartintr consoleintr h else Some h)"

text \<open>
  A timer tick from the interrupt to the end of \<open>devintr\<close>: the machine timer interrupt, its handler, and
  the supervisor software interrupt that the handler has raised.
\<close>

definition serve_tick :: "(hart \<Rightarrow> hart) \<Rightarrow> (u32 \<Rightarrow> 'w \<times> htif \<Rightarrow> ('w \<times> htif) option) \<Rightarrow>
    hart \<Rightarrow> 'w \<times> htif \<Rightarrow> (hart \<times> 'w \<times> htif) option" where
  "serve_tick count_tick consoleintr s h =
     (let s = timervec (m_trap 0x8000000000000007 0 s);
          s = s_trap 0x8000000000000001 0 s
      in map_option snd (devintr_soft (clockintr count_tick consoleintr) (\<lambda>s h. None) s h))"

text \<open>
  The kernel over time: ticks, rounds of the scheduler, and stretches \<open>Other f g\<close> in which the hart does
  anything else (\<open>f\<close>) and the state of the line discipline changes (\<open>g\<close>), as when a process reads a line.
\<close>

datatype 'w kernel_event = TimerTick | Round int | Other "hart \<Rightarrow> hart" "'w \<Rightarrow> 'w"

fun kernel_run :: "(hart \<Rightarrow> hart) \<Rightarrow> (u32 \<Rightarrow> 'w \<times> htif \<Rightarrow> ('w \<times> htif) option) \<Rightarrow> 'w kernel_event list \<Rightarrow>
    hart \<Rightarrow> 'w \<times> htif \<Rightarrow> (hart \<times> 'w \<times> htif) option" where
  "kernel_run ct ci [] s x = Some (s, x)"
| "kernel_run ct ci (TimerTick # es) s x =
     (case serve_tick ct ci s x of None \<Rightarrow> None | Some (s, x) \<Rightarrow> kernel_run ct ci es s x)"
| "kernel_run ct ci (Round found # es) s x =
     (case scheduler_idle ci found x of None \<Rightarrow> None | Some x \<Rightarrow> kernel_run ct ci es s x)"
| "kernel_run ct ci (Other f g # es) s x = kernel_run ct ci es (f s) (g (fst x), snd x)"

fun polls :: "'w kernel_event list \<Rightarrow> nat" where
  "polls [] = 0"
| "polls (TimerTick # es) = Suc (polls es)"
| "polls (Round found # es) = (if found = 0 then Suc (polls es) else polls es)"
| "polls (Other f g # es) = polls es"

text \<open>
  \<open>delivers cook es w cs w' os\<close>: over the events \<open>es\<close> a line discipline that starts in state \<open>w\<close> is
  handed the characters \<open>cs\<close>, in order and each once, some at each poll; it ends in \<open>w'\<close> and shows \<open>os\<close>.
\<close>

inductive delivers :: "('w \<Rightarrow> u8 \<Rightarrow> 'w \<times> u8 list) \<Rightarrow> 'w kernel_event list \<Rightarrow> 'w \<Rightarrow> u8 list \<Rightarrow> 'w \<Rightarrow> u8 list \<Rightarrow> bool"
  for cook where
  nothing: "delivers cook [] w [] w []"
| tick: "delivers cook es (fst (cooked cook w cs)) ds w' os
    \<Longrightarrow> delivers cook (TimerTick # es) w (cs @ ds) w' (snd (cooked cook w cs) @ os)"
| idle: "delivers cook es (fst (cooked cook w cs)) ds w' os
    \<Longrightarrow> delivers cook (Round 0 # es) w (cs @ ds) w' (snd (cooked cook w cs) @ os)"
| busy: "found \<noteq> 0 \<Longrightarrow> delivers cook es w ds w' os \<Longrightarrow> delivers cook (Round found # es) w ds w' os"
| other: "delivers cook es (g w) ds w' os \<Longrightarrow> delivers cook (Other f g # es) w ds w' os"

section \<open>Input arrives\<close>

text \<open>The kernel leaves the timer's scratch block and \<open>mscratch\<close> to the M-mode handler.\<close>

definition spares_timer :: "u64 \<Rightarrow> u64 \<Rightarrow> (hart \<Rightarrow> hart) \<Rightarrow> bool" where
  "spares_timer scratch cmp f \<longleftrightarrow> (\<forall>s. timer_ready scratch cmp s \<longrightarrow> timer_ready scratch cmp (f s))"

definition leaves_timer :: "u64 \<Rightarrow> u64 \<Rightarrow> 'w kernel_event list \<Rightarrow> bool" where
  "leaves_timer scratch cmp es \<longleftrightarrow> (\<forall>f g. Other f g \<in> set es \<longrightarrow> spares_timer scratch cmp f)"

lemma leaves_timer_Cons: "leaves_timer scratch cmp (e # es) \<Longrightarrow> leaves_timer scratch cmp es"
  by (auto simp: leaves_timer_def)

lemma serve_tick_polls:
  assumes "timer_ready scratch cmp s" "spares_timer scratch cmp ct" "uartintr ci x = Some x'"
  shows "\<exists>s'. serve_tick ct ci s x = Some (s', x') \<and> timer_ready scratch cmp s'"
proof -
  define u where "u = s_trap 0x8000000000000001 0 (timervec (m_trap 0x8000000000000007 0 s))"
  have "timer_ready scratch cmp (csrw_sip (sip u AND NOT 2) u)" "scause u = 0x8000000000000001"
    using timervec_keeps [OF assms(1)] unfolding u_def
    by (simp_all add: timer_ready_def s_trap_def csrw_sip_def)
  with assms(2,3) show ?thesis
    by (simp add: serve_tick_def u_def [symmetric] devintr_soft_def clockintr_def spares_timer_def)
qed

context line_discipline
begin

lemma kernel_run_delivers:
  assumes "timer_ready scratch cmp s" "spares_timer scratch cmp ct"
    and "leaves_timer scratch cmp es" and "console_inv h"
  shows "\<exists>s' w' h' cs os. kernel_run ct consoleintr es s (w, h) = Some (s', w', h') \<and> timer_ready scratch cmp s'
    \<and> delivers cook es w cs w' os \<and> upcoming h = cs @ upcoming h' \<and> committed h' = committed h @ os
    \<and> (sched h = [] \<longrightarrow>
        length (upcoming h') \<le> length (upcoming h) - (if read_pending h \<noteq> 0 then polls es else polls es - 1))"
  using assms
proof (induction es arbitrary: s w h)
  case Nil
  then show ?case by (auto intro: delivers.nothing)
next
  case (Cons e es)
  obtain h1 cs where h1: "uartintr consoleintr (w, h) = Some (fst (cooked cook w cs), h1)" "console_inv h1"
    "upcoming h = cs @ upcoming h1" "committed h1 = committed h @ snd (cooked cook w cs)" "sched h = [] \<longrightarrow> sched h1 = []"
    "read_pending h1 \<noteq> 0" "sched h = [] \<and> read_pending h \<noteq> 0 \<and> upcoming h \<noteq> [] \<longrightarrow> cs \<noteq> []"
    using poll_step [OF Cons.prems(4), of w] by blast
  have fewer: "length u \<le> length (upcoming h) - (if read_pending h \<noteq> 0 then Suc n else Suc n - 1)"
    if "length u \<le> length (upcoming h1) - n" "sched h = []" for u :: "u8 list" and n
    using that h1(3,7) by (cases cs) auto
  note rest = leaves_timer_Cons [OF Cons.prems(3)]
  show ?case
  proof (cases e)
    case TimerTick
    obtain s1 where s1: "serve_tick ct consoleintr s (w, h) = Some (s1, fst (cooked cook w cs), h1)"
      "timer_ready scratch cmp s1"
      using serve_tick_polls [OF Cons.prems(1,2) h1(1)] by blast
    from Cons.IH [OF s1(2) Cons.prems(2) rest h1(2), where w = "fst (cooked cook w cs)"] obtain s' w' h' ds os where
      "kernel_run ct consoleintr es s1 (fst (cooked cook w cs), h1) = Some (s', w', h')" "timer_ready scratch cmp s'"
      "delivers cook es (fst (cooked cook w cs)) ds w' os" "upcoming h1 = ds @ upcoming h'"
      "committed h' = committed h1 @ os" "sched h1 = [] \<longrightarrow> length (upcoming h') \<le> length (upcoming h1) - polls es"
      unfolding if_P [OF h1(6)] by blast
    with TimerTick s1(1) h1 fewer [of "upcoming h'" "polls es"] show ?thesis
      by (intro exI [of _ s'] exI [of _ w'] exI [of _ h'] exI [of _ "cs @ ds"] exI [of _ "snd (cooked cook w cs) @ os"])
         (auto intro: delivers.tick)
  next
    case (Round found)
    show ?thesis
    proof (cases "found = 0")
      case True
      from Cons.IH [OF Cons.prems(1,2) rest h1(2), where w = "fst (cooked cook w cs)"] obtain s' w' h' ds os where
        "kernel_run ct consoleintr es s (fst (cooked cook w cs), h1) = Some (s', w', h')" "timer_ready scratch cmp s'"
        "delivers cook es (fst (cooked cook w cs)) ds w' os" "upcoming h1 = ds @ upcoming h'"
        "committed h' = committed h1 @ os" "sched h1 = [] \<longrightarrow> length (upcoming h') \<le> length (upcoming h1) - polls es"
        unfolding if_P [OF h1(6)] by blast
      with Round True h1 fewer [of "upcoming h'" "polls es"] show ?thesis
        by (intro exI [of _ s'] exI [of _ w'] exI [of _ h'] exI [of _ "cs @ ds"] exI [of _ "snd (cooked cook w cs) @ os"])
           (auto simp: scheduler_idle_def intro: delivers.idle)
    next
      case False
      with Cons.IH [OF Cons.prems(1,2) rest Cons.prems(4), where w = w] Round show ?thesis
        by (fastforce simp: scheduler_idle_def intro: delivers.busy)
    qed
  next
    case (Other f g)
    with Cons.prems(1,3) have "timer_ready scratch cmp (f s)" by (auto simp: spares_timer_def leaves_timer_def)
    from Cons.IH [OF this Cons.prems(2) rest Cons.prems(4), where w = "g w"] Other show ?thesis
      by (fastforce intro: delivers.other)
  qed
qed

end

text \<open>
  C15: Input reaches the kernel under any scheduling, for every line discipline that keeps to the driver's
  output (\<open>obeys\<close>). With a prompt host, once the ticks and idle rounds of the scheduler together number
  more than the characters waiting, all of them have been handed to the line discipline, in order and once
  each, and what it showed is on the console, whatever the hart does in between and whatever else changes
  the state of the line discipline; every tick and every round returns, and the next tick will be served.
\<close>

theorem polls_deliver_input:
  assumes "obeys consoleintr cook" "timer_ready scratch cmp s" "spares_timer scratch cmp count_tick"
    and "leaves_timer scratch cmp es"
    and "console_inv h" "sched h = []" "length (upcoming h) < polls es"
  shows "\<exists>s' w' h' os. kernel_run count_tick consoleintr es s (w, h) = Some (s', w', h')
    \<and> delivers cook es w (upcoming h) w' os \<and> committed h' = committed h @ os \<and> upcoming h' = []
    \<and> timer_ready scratch cmp s'"
proof -
  from line_discipline.kernel_run_delivers [OF obeys_discipline [OF assms(1)] assms(2-5), where w = w]
  obtain s' w' h' cs os where run: "kernel_run count_tick consoleintr es s (w, h) = Some (s', w', h')"
    "timer_ready scratch cmp s'" "delivers cook es w cs w' os" "upcoming h = cs @ upcoming h'"
    "committed h' = committed h @ os"
    and few: "sched h = [] \<longrightarrow>
        length (upcoming h') \<le> length (upcoming h) - (if read_pending h \<noteq> 0 then polls es else polls es - 1)"
    by blast
  have "length (upcoming h') = 0" using few assms(6,7) by (simp split: if_splits)
  with run show ?thesis by auto
qed

section \<open>Witnesses\<close>

text \<open>The keys \<open>h\<close> and \<open>i\<close> wait; between two polls a process takes the line read so far.\<close>

theorem polls_deliver_input_witness:
  "let es = [TimerTick, Other (\<lambda>s. s\<lparr>pc := 0\<rparr>) (\<lambda>_. []), Round 2, Round 0, TimerTick] in
   \<exists>s' w' h' os. kernel_run id (line_by edit_line) es armed_hart ([], sample_console []) = Some (s', w', h')
     \<and> delivers edit_line es [] [104, 105] w' os \<and> committed h' = os"
proof -
  let ?es = "[TimerTick, Other (\<lambda>s. s\<lparr>pc := 0\<rparr>) (\<lambda>_. []), Round 2, Round 0, TimerTick]"
  have "spares_timer 0x80009030 0x02004008 id"
    and "leaves_timer 0x80009030 0x02004008 ?es"
    by (auto simp: leaves_timer_def spares_timer_def timer_ready_def)
  moreover have "length (upcoming (sample_console [])) < polls ?es" "sched (sample_console []) = []"
    by (simp_all add: sample_console_def upcoming_def)
  ultimately obtain s' w' h' os where
    "kernel_run id (line_by edit_line) ?es armed_hart ([], sample_console []) = Some (s', w', h')"
    "delivers edit_line ?es [] (upcoming (sample_console [])) w' os" "committed h' = committed (sample_console []) @ os"
    using polls_deliver_input [OF line_by_obeys [of edit_line] armed_hart_ready _ _ sample_console_inv [of "[]"],
        where es = ?es and count_tick = id and w = "[]"] by blast
  then show ?thesis
    unfolding Let_def
    by (intro exI [of _ s'] exI [of _ w'] exI [of _ h'] exI [of _ os])
       (simp add: sample_console_def upcoming_def del: kernel_run.simps)
qed

end
