(* ===== verification/Vm.thy ===== *)
theory Vm
  imports Trap Blkdev
begin

text \<open>
  Address translation and the memory map of the port: page table entries (\<open>kernel/riscv.h\<close>) as
  \<open>mappages\<close> (\<open>kernel/vm.c\<close>) writes them, the device mappings of \<open>kvmmake\<close>, the layout of physical memory
  (\<open>kernel/memlayout.h\<close>), and the window through which the core's memory port reaches the DRAM of the
  board (\<open>board/src/verilog/rocketchip_wrapper.v\<close>). The kernel's parts are those that
  \<open>xv6/0001-xv6-rocket-port.patch\<close> shows; \<open>walk\<close> and \<open>PTE_V\<close>, which it uses and does not show, are parameters.
\<close>

section \<open>Page table entries\<close>

definition PTE_W :: u64 where "PTE_W = push_bit 2 1"
definition PTE_X :: u64 where "PTE_X = push_bit 3 1"
definition PTE_U :: u64 where "PTE_U = push_bit 4 1"
definition PTE_A :: u64 where "PTE_A = push_bit 6 1"
definition PTE_D :: u64 where "PTE_D = push_bit 7 1"
definition PTE_AD :: u64 where "PTE_AD = PTE_A OR PTE_D"

definition PA2PTE :: "u64 \<Rightarrow> u64" where "PA2PTE pa = push_bit 10 (drop_bit 12 pa)"

definition PGSIZE :: u64 where "PGSIZE = 4096"

text \<open>
  The body of the loop of \<open>mappages\<close> for the page at \<open>a\<close>; \<open>final\<close> is the last page, \<open>last\<close> in the code. \<open>walk a st\<close> finds the entry for \<open>a\<close>, or none when
  it is out of memory; \<open>pte_at\<close> and \<open>set_pte\<close> read and write an entry in memory.
\<close>

datatype 's map_result = Failed 's | Remap | Finished 's | Continue u64 's

definition mappages_body :: "u64 \<Rightarrow> (u64 \<Rightarrow> 's \<Rightarrow> u64 option \<times> 's) \<Rightarrow> ('s \<Rightarrow> u64 \<Rightarrow> u64) \<Rightarrow> (u64 \<Rightarrow> u64 \<Rightarrow> 's \<Rightarrow> 's) \<Rightarrow>
    u64 \<Rightarrow> u64 \<Rightarrow> u64 \<Rightarrow> u64 \<Rightarrow> 's \<Rightarrow> 's map_result" where
  "mappages_body PTE_V walk pte_at set_pte a final pa perm st =
     (case walk a st of
        (None, st) \<Rightarrow> Failed st
      | (Some pte, st) \<Rightarrow>
          if pte_at st pte AND PTE_V \<noteq> 0 then Remap
          else let st = set_pte pte (PA2PTE pa OR perm OR PTE_V OR PTE_AD) st
               in if a = final then Finished st else Continue (a + PGSIZE) st)"

text \<open>
  How this core's page table walker reads an entry, as the comment at \<open>PTE_AD\<close> gives it: an entry is a
  leaf only when A is set, and a store through it needs W and D.
\<close>

definition ptw_leaf :: "u64 \<Rightarrow> bool" where
  "ptw_leaf pte \<longleftrightarrow> bit pte 0 \<and> (bit pte 1 \<or> bit pte 3 \<and> \<not> bit pte 2) \<and> bit pte 6"

definition ptw_store :: "u64 \<Rightarrow> bool" where
  "ptw_store pte \<longleftrightarrow> ptw_leaf pte \<and> bit pte 2 \<and> bit pte 7"

definition ptw_page :: "u64 \<Rightarrow> u64" where
  "ptw_page pte = push_bit 12 (take_bit 44 (drop_bit 10 pte))"

section \<open>Physical memory\<close>

definition KERNBASE :: u64 where "KERNBASE = 0x80000000"
definition PHYSTOP :: u64 where "PHYSTOP = KERNBASE + 128 * 1024 * 1024"
definition VIRTIO0 :: u64 where "VIRTIO0 = 0x10001000"
definition PLIC :: u64 where "PLIC = 0x0c000000"

text \<open>The calls of \<open>kvmmap\<close> for devices in \<open>kvmmake\<close>, from the one for \<open>VIRTIO0\<close> on: va, pa, size.\<close>

definition kvmmake_devices :: "(u64 \<times> u64 \<times> u64) list" where
  "kvmmake_devices =
     [(VIRTIO0, VIRTIO0, PGSIZE), (BLKDEV0, BLKDEV0, PGSIZE), (CLINT_BASE, CLINT_BASE, 0x10000),
      (PLIC, PLIC, 0x4000000)]"

text \<open>\<open>{4'd1, mem_araddr[27:0]}\<close>, the same for reads and writes.\<close>

definition S_AXI_addr :: "u32 \<Rightarrow> u32" where
  "S_AXI_addr mem_addr = push_bit 28 1 OR take_bit 28 mem_addr"

section \<open>An entry that this core accepts\<close>

lemma bit_pte:
  assumes "\<forall>k. bit perm k \<longrightarrow> k \<in> {1, 2, 3, 4}"
  shows "bit (PA2PTE pa OR perm OR 1 OR PTE_AD) k \<longleftrightarrow>
    k = 0 \<or> k \<in> {1, 2, 3, 4} \<and> bit perm k \<or> k = 6 \<or> k = 7 \<or> 10 \<le> k \<and> bit pa (k + 2)"
proof -
  have "k < 64 \<Longrightarrow> 10 \<le> k \<Longrightarrow> 12 + (k - 10) = k + 2" by simp
  moreover have "bit pa (k + 2) \<Longrightarrow> k < 64" using bit_imp_le_length [of pa "k + 2"] by simp
  ultimately show ?thesis
    using assms unfolding PTE_AD_def PTE_A_def PTE_D_def PA2PTE_def
    by (simp only: bit_or_iff bit_word_push_bit bit_word_drop bit_1_iff) auto
qed

text \<open>
  C23: A page mapped by \<open>mappages\<close> is usable on this core. If \<open>walk\<close> finds a free entry, the entry written
  is a leaf for the page table walker, names the page \<open>pa\<close>, and allows stores exactly when \<open>perm\<close> has W;
  no other entry changes. Without \<open>PTE_AD\<close>, the entry of the original kernel, it is never a leaf.
\<close>

theorem mapped_page_walks:
  assumes "PTE_V = 1" "walk a st = (Some pte, st1)" "\<not> bit (pte_at st1 pte) 0"
    and heap: "\<And>p q v st. pte_at (set_pte p v st) q = (if q = p then v else pte_at st q)"
    and perm: "\<forall>k. bit perm k \<longrightarrow> k \<in> {1, 2, 3, 4}" "bit perm 1 \<or> bit perm 3 \<and> \<not> bit perm 2"
    and pa: "take_bit 12 pa = 0" "take_bit 56 pa = pa"
  shows "\<exists>st2. mappages_body PTE_V walk pte_at set_pte a final pa perm st =
      (if a = final then Finished st2 else Continue (a + PGSIZE) st2)
    \<and> ptw_leaf (pte_at st2 pte) \<and> ptw_page (pte_at st2 pte) = pa
    \<and> (ptw_store (pte_at st2 pte) \<longleftrightarrow> bit perm 2)
    \<and> (\<forall>q. q \<noteq> pte \<longrightarrow> pte_at st2 q = pte_at st1 q)
    \<and> \<not> ptw_leaf (pte_at st2 pte AND NOT PTE_AD)"
proof -
  let ?e = "PA2PTE pa OR perm OR 1 OR PTE_AD"
  have free: "pte_at st1 pte AND PTE_V = 0"
    using assms(1,3) by (intro bit_word_eqI) (auto simp: bit_and_iff bit_1_iff intro!: gr0I)
  have small: "bit pa k \<Longrightarrow> 12 \<le> k \<and> k < 56" for k
    using pa by (metis bit_take_bit_iff bit_0_eq bot_apply bot_bool_def not_less)
  note e = bit_pte [OF perm(1), of pa]
  have leaf: "ptw_leaf ?e" "ptw_store ?e \<longleftrightarrow> bit perm 2"
    unfolding ptw_store_def ptw_leaf_def e using perm by auto
  have page: "ptw_page ?e = pa"
  proof (rule bit_word_eqI)
    fix k :: nat assume "k < LENGTH(64)"
    then show "bit (ptw_page ?e) k = bit pa k"
      unfolding ptw_page_def
      using small [of k]
      by (simp only: bit_word_push_bit bit_take_bit_iff bit_word_drop e) (auto simp: le_add_diff_inverse)
  qed
  have ad: "bit PTE_AD 6"
    unfolding PTE_AD_def PTE_A_def PTE_D_def by (simp only: bit_or_iff bit_word_push_bit bit_1_iff) simp
  have "\<not> ptw_leaf (?e AND NOT PTE_AD)"
    unfolding ptw_leaf_def bit_and_iff bit_word_not using ad by simp
  with free assms(1,2) heap leaf page show ?thesis
    by (intro exI [of _ "set_pte pte ?e st1"]) (simp add: mappages_body_def Let_def)
qed

section \<open>The devices are mapped\<close>

text \<open>The registers that the drivers and the timer code touch, with their widths in bytes.\<close>

definition blkdev_accesses :: "(u64 \<times> nat) list" where
  "blkdev_accesses =
     [(BLKDEV_ADDR, 8), (BLKDEV_OFFSET, 4), (BLKDEV_LEN, 4), (BLKDEV_WRITE, 1), (BLKDEV_ALLOC, 1),
      (BLKDEV_NALLOC, 1), (BLKDEV_COMPLETE, 1), (BLKDEV_NCOMPLETE, 1), (BLKDEV_NSECTORS, 4), (BLKDEV_MAX_LEN, 4)]"

definition inside_range :: "u64 \<Rightarrow> nat \<Rightarrow> u64 \<times> u64 \<times> u64 \<Rightarrow> bool" where
  "inside_range a n r = (case r of (va, pa, sz) \<Rightarrow>
     va = pa \<and> unat va \<le> unat a \<and> unat a + n \<le> unat va + unat sz)"

definition ranges_apart :: "u64 \<times> u64 \<times> u64 \<Rightarrow> u64 \<times> u64 \<times> u64 \<Rightarrow> bool" where
  "ranges_apart r s = (case (r, s) of ((va, _, sz), (vb, _, sb)) \<Rightarrow>
     unat va + unat sz \<le> unat vb \<or> unat vb + unat sb \<le> unat va)"

lemmas region_defs = VIRTIO0_def PLIC_def CLINT_BASE_def PGSIZE_def KERNBASE_def blkdev_regs

text \<open>
  The device mappings of \<open>kvmmake\<close> cover, at the same virtual and physical address, every register
  that the block device driver uses, every hart's \<open>mtimecmp\<close> for eight harts, and \<open>mtime\<close>; each is whole pages
  below the kernel's memory, and no two overlap, so none of them is mapped twice.
\<close>

theorem devices_mapped:
  assumes "unat hartid < 8"
  shows "list_all (\<lambda>(a, n). \<exists>r. r \<in> set kvmmake_devices \<and> inside_range a n r) blkdev_accesses
    \<and> (\<exists>r. r \<in> set kvmmake_devices \<and> inside_range (CLINT_MTIMECMP hartid) 8 r)
    \<and> (\<exists>r. r \<in> set kvmmake_devices \<and> inside_range CLINT_MTIME 8 r)
    \<and> list_all (\<lambda>(va, pa, sz). va mod PGSIZE = 0 \<and> sz mod PGSIZE = 0 \<and> unat va + unat sz \<le> unat KERNBASE)
        kvmmake_devices
    \<and> sorted_wrt ranges_apart kvmmake_devices"
proof -
  let ?blk = "(BLKDEV0, BLKDEV0, PGSIZE)" and ?clint = "(CLINT_BASE, CLINT_BASE, 0x10000)"
  have member: "?blk \<in> set kvmmake_devices" "?clint \<in> set kvmmake_devices" by (simp_all add: kvmmake_devices_def)
  have "list_all (\<lambda>(a, n). inside_range a n ?blk) blkdev_accesses"
    by (simp add: blkdev_accesses_def inside_range_def region_defs)
  then have "list_all (\<lambda>(a, n). \<exists>r. r \<in> set kvmmake_devices \<and> inside_range a n r) blkdev_accesses"
    by (rule list.pred_mono_strong) (use member(1) in blast)
  moreover have "inside_range CLINT_MTIME 8 ?clint"
    by (simp add: CLINT_MTIME_def inside_range_def region_defs)
  moreover have "inside_range (CLINT_MTIMECMP hartid) 8 ?clint"
    using assms by (simp add: CLINT_MTIMECMP_def inside_range_def region_defs unat_word_ariths)
  moreover have "list_all (\<lambda>(va, pa, sz). va mod PGSIZE = 0 \<and> sz mod PGSIZE = 0
      \<and> unat va + unat sz \<le> unat KERNBASE) kvmmake_devices"
    by (simp add: kvmmake_devices_def region_defs)
  moreover have "sorted_wrt ranges_apart kvmmake_devices"
    by (simp add: kvmmake_devices_def ranges_apart_def region_defs)
  ultimately show ?thesis using member by blast
qed

section \<open>The memory window\<close>

lemma kernel_window:
  assumes "0x80000000 \<le> unat a" "unat a < 0x90000000"
  shows "unat (S_AXI_addr (ucast (a :: u64))) = unat a - 0x70000000
    \<and> 0x10000000 \<le> unat (S_AXI_addr (ucast a)) \<and> unat (S_AXI_addr (ucast a)) < 0x20000000
    \<and> S_AXI_addr (ucast (a + 0x10000000)) = S_AXI_addr (ucast a)
    \<and> unat KERNBASE = 0x80000000 \<and> unat KERNBASE < unat PHYSTOP \<and> unat PHYSTOP \<le> 0x90000000"
proof -
  have "push_bit 28 1 AND take_bit 28 m = (0 :: u32)" for m
    by (rule bit_word_eqI) (simp only: bit_and_iff bit_take_bit_iff bit_push_bit_iff bit_0_eq bot_apply bot_bool_def, simp)
  then have "S_AXI_addr m = push_bit 28 1 + take_bit 28 m" for m
    unfolding S_AXI_addr_def by (rule disjunctive_add_eq_or [symmetric])
  moreover have "unat (take_bit 28 m) = unat m mod 2 ^ 28" for m :: u32
    unfolding unsigned_take_bit_eq unfolding take_bit_eq_mod ..
  moreover have "unat (take_bit 28 m) < 2 ^ 28" for m :: u32
    unfolding unsigned_take_bit_eq unfolding take_bit_eq_mod by simp
  ultimately have dram: "unat (S_AXI_addr m) = 2 ^ 28 + unat m mod 2 ^ 28" for m
    by (simp add: unat_word_ariths)
  have low: "unat (ucast b :: u32) = unat b mod 2 ^ 32" for b :: u64
    by (simp add: unsigned_ucast_eq take_bit_eq_mod)
  have "\<exists>r. unat a = 0x80000000 + r \<and> r < 0x10000000"
    using assms by (intro exI [of _ "unat a - 0x80000000"]) linarith
  then obtain r where r: "unat a = 0x80000000 + r" "r < 0x10000000" by blast
  have "(8 * 2 ^ 28 + r) mod 2 ^ 28 = r" "(9 * 2 ^ 28 + r) mod 2 ^ 28 = r"
    using r(2) by (simp_all only: mod_mult_self3) simp_all
  then have turn: "(0x80000000 + r) mod 2 ^ 32 = 0x80000000 + r" "(0x80000000 + r) mod 2 ^ 28 = r"
      "(0x90000000 + r) mod 2 ^ 32 = 0x90000000 + r" "(0x90000000 + r) mod 2 ^ 28 = r"
    using r(2) by simp_all
  have here: "unat (S_AXI_addr (ucast a)) = 0x10000000 + r"
    unfolding dram low r(1) turn by simp
  have "unat (a + 0x10000000) = 0x90000000 + r"
    using r by (simp add: unat_word_ariths)
  then have "unat (S_AXI_addr (ucast (a + 0x10000000))) = 0x10000000 + r"
    unfolding dram low by (simp only: turn) simp
  with here have "S_AXI_addr (ucast (a + 0x10000000)) = S_AXI_addr (ucast a)"
    by (simp only: word_unat_eq_iff)
  moreover have "unat KERNBASE = 0x80000000 \<and> unat KERNBASE < unat PHYSTOP \<and> unat PHYSTOP \<le> 0x90000000"
    by (simp add: KERNBASE_def PHYSTOP_def)
  moreover have "0x10000000 + r = unat a - 0x70000000" "0x10000000 + r < 0x20000000"
    using r by linarith+
  ultimately show ?thesis unfolding here by simp
qed

text \<open>
  The core's memory is its own part of the board's DRAM. An address of the 256 MB from \<open>KERNBASE\<close> on,
  in which \<open>PHYSTOP\<close> lies, goes to the DRAM address 0x70000000 below it, so distinct addresses stay
  distinct and all of them lie in the upper half of the 512 MB, above the 256 MB that Linux uses. The
  address 256 MB further on goes to the same place.
\<close>

theorem memory_window:
  assumes "0x80000000 \<le> unat a" "unat a < 0x90000000"
  shows "unat (S_AXI_addr (ucast (a :: u64))) = unat a - 0x70000000
    \<and> 0x10000000 \<le> unat (S_AXI_addr (ucast a)) \<and> unat (S_AXI_addr (ucast a)) < 0x20000000
    \<and> S_AXI_addr (ucast (a + 0x10000000)) = S_AXI_addr (ucast a)
    \<and> unat KERNBASE = 0x80000000 \<and> unat KERNBASE < unat PHYSTOP \<and> unat PHYSTOP \<le> 0x90000000"
  by (rule kernel_window [OF assms])

section \<open>Witnesses\<close>

text \<open>Page table memory as a function; the entry for every page is at 0x80100000.\<close>

theorem mapped_page_walks_witness:
  "\<exists>st2. mappages_body 1 (\<lambda>a st. (Some 0x80100000, st)) (\<lambda>st p. st p) (\<lambda>p v st. st(p := v))
      0x10015000 0x10015000 0x10015000 (PTE_W OR push_bit 1 1) (\<lambda>p. 0 :: u64) = Finished st2
    \<and> ptw_store (st2 0x80100000) \<and> ptw_page (st2 0x80100000) = 0x10015000"
proof -
  define rw :: u64 where "rw = PTE_W OR push_bit 1 1"
  have perm: "bit rw k \<longleftrightarrow> k = 2 \<or> k = 1" for k
    unfolding rw_def PTE_W_def by (simp only: bit_or_iff bit_word_push_bit bit_1_iff) auto
  have pa: "take_bit 12 (0x10015000 :: u64) = 0" "take_bit 56 (0x10015000 :: u64) = 0x10015000"
    by code_simp+
  have "\<exists>st2. mappages_body 1 (\<lambda>a st. (Some 0x80100000, st)) (\<lambda>st p. st p) (\<lambda>p v st. st(p := v))
        0x10015000 0x10015000 0x10015000 rw (\<lambda>p. 0 :: u64) = Finished st2
      \<and> ptw_store (st2 0x80100000) \<and> ptw_page (st2 0x80100000) = 0x10015000"
    using mapped_page_walks [where PTE_V = 1 and walk = "\<lambda>a st. (Some 0x80100000, st)" and a = "0x10015000"
        and st = "\<lambda>p. 0" and pte = "0x80100000" and pte_at = "\<lambda>st p. st p" and set_pte = "\<lambda>p v st. st(p := v)"
        and perm = rw and pa = "0x10015000" and final = "0x10015000"]
    by (auto simp: perm pa)
  then show ?thesis by (simp only: rw_def)
qed

theorem devices_mapped_witness: "\<exists>r. r \<in> set kvmmake_devices \<and> inside_range (CLINT_MTIMECMP 1) 8 r"
  using devices_mapped [of 1] by simp

theorem memory_window_witness: "unat (S_AXI_addr (ucast (0x80001234 :: u64))) = 0x10001234"
  using memory_window [of "0x80001234"] by simp

end
