(* ===== verification/Kalloc.thy ===== *)
theory Kalloc
  imports KString Vm
begin

text \<open>
  The page allocator (\<open>kernel/kalloc.c\<close>) as \<open>xv6/0001-xv6-rocket-port.patch\<close> changes it: pages are no longer
  poisoned while \<open>kinit\<close> builds the free list, nor afterwards unless \<open>KFREE_POISON\<close> is set. The lines that
  the patch does not show are parameters: \<open>link pa\<close> puts the page \<open>pa\<close> on the free list, and
  \<open>freerange f pa_start pa_end\<close> calls \<open>f\<close> on the pages of a range; \<open>frees_in_turn\<close> is what is relied on of it.
  \<open>kend\<close> is the end of the kernel image.
\<close>

section \<open>The allocator\<close>

record kheap =
  bytes :: kmem
  freelist :: u64
  kinit_freeing :: int

definition KFREE_POISON :: int where "KFREE_POISON = 0"

text \<open>\<open>None\<close>: \<open>memset\<close> does not return; \<open>Inl\<close>: \<open>panic\<close>, or a trap inside \<open>memset\<close>.\<close>

datatype kfault = Panic string | Trapped trap

definition kfree :: "int \<Rightarrow> u64 \<Rightarrow> (u64 \<Rightarrow> kheap \<Rightarrow> kheap) \<Rightarrow> u64 \<Rightarrow> kheap \<Rightarrow> (kfault + kheap) option" where
  "kfree poison kend link pa k =
     (if pa mod PGSIZE \<noteq> 0 \<or> pa < kend \<or> PHYSTOP \<le> pa then Some (Inl (Panic ''kfree''))
      else if poison \<noteq> 0 \<and> kinit_freeing k = 0 then
        (case memset pa 1 (ucast PGSIZE) (bytes k) of
           None \<Rightarrow> None
         | Some (Inl t) \<Rightarrow> Some (Inl (Trapped t))
         | Some (Inr (_, m)) \<Rightarrow> Some (Inr (link pa (k\<lparr>bytes := m\<rparr>))))
      else Some (Inr (link pa k)))"

type_synonym freer = "(u64 \<Rightarrow> kheap \<Rightarrow> (kfault + kheap) option) \<Rightarrow> u64 \<Rightarrow> u64 \<Rightarrow> kheap \<Rightarrow> (kfault + kheap) option"

definition kinit :: "int \<Rightarrow> u64 \<Rightarrow> (u64 \<Rightarrow> kheap \<Rightarrow> kheap) \<Rightarrow> freer \<Rightarrow> kheap \<Rightarrow> (kfault + kheap) option" where
  "kinit poison kend link freerange k =
     (let k = k\<lparr>kinit_freeing := 1\<rparr>
      in case freerange (kfree poison kend link) kend PHYSTOP k of
           Some (Inr k) \<Rightarrow> Some (Inr (k\<lparr>kinit_freeing := 0\<rparr>))
         | r \<Rightarrow> r)"

text \<open>
  What is relied on of \<open>freerange\<close>: on the range from the end of the kernel to \<open>PHYSTOP\<close> it calls
  the given function on the pages \<open>pages\<close> one after the other, and ends with the first that faults.
\<close>

fun free_pages :: "(u64 \<Rightarrow> kheap \<Rightarrow> (kfault + kheap) option) \<Rightarrow> u64 list \<Rightarrow> kheap \<Rightarrow> (kfault + kheap) option" where
  "free_pages fr [] k = Some (Inr k)"
| "free_pages fr (pa # pages) k =
     (case fr pa k of Some (Inr k) \<Rightarrow> free_pages fr pages k | r \<Rightarrow> r)"

definition frees_in_turn :: "freer \<Rightarrow> u64 \<Rightarrow> u64 list \<Rightarrow> bool" where
  "frees_in_turn freerange kend pages \<longleftrightarrow> (\<forall>f k. freerange f kend PHYSTOP k = free_pages f pages k)"

section \<open>Freeing\<close>

text \<open>A page that may be freed, and what linking it does: its first eight bytes hold \<open>struct run\<close>.\<close>

definition freeable :: "u64 \<Rightarrow> u64 \<Rightarrow> bool" where
  "freeable kend pa \<longleftrightarrow> pa mod PGSIZE = 0 \<and> kend \<le> pa \<and> pa < PHYSTOP"

definition links_only :: "(u64 \<Rightarrow> kheap \<Rightarrow> kheap) \<Rightarrow> bool" where
  "links_only link \<longleftrightarrow> (\<forall>pa k. kinit_freeing (link pa k) = kinit_freeing k
     \<and> (\<forall>x. 8 \<le> unat (x - pa) \<longrightarrow> bytes (link pa k) x = bytes k x))"

lemma kfree_quiet:
  assumes "poison = 0 \<or> kinit_freeing k \<noteq> 0"
  shows "kfree poison kend link pa k =
    (if freeable kend pa then Some (Inr (link pa k)) else Some (Inl (Panic ''kfree'')))"
  using assms by (auto simp: kfree_def freeable_def not_le not_less)

lemma free_pages_quiet:
  assumes "links_only link" "list_all (freeable kend) pages" "kinit_freeing k \<noteq> 0"
  shows "\<exists>k'. free_pages (kfree poison kend link) pages k = Some (Inr k') \<and> kinit_freeing k' \<noteq> 0
    \<and> (\<forall>x. (\<forall>pa. pa \<in> set pages \<longrightarrow> 8 \<le> unat (x - pa)) \<longrightarrow> bytes k' x = bytes k x)"
  using assms(2,3)
proof (induction pages arbitrary: k)
  case Nil
  then show ?case by simp
next
  case (Cons pa pages)
  from Cons.prems assms(1) have "kinit_freeing (link pa k) \<noteq> 0" by (simp add: links_only_def)
  from Cons.IH [OF _ this] Cons.prems assms(1) show ?case
    by (auto simp: kfree_quiet links_only_def)
qed

text \<open>
  C25: \<open>kinit\<close> fills no page, whatever \<open>KFREE_POISON\<close> is: every byte outside the list links of the
  pages that \<open>freerange\<close> frees keeps its value, although the README and the device tree say that \<open>kinit()\<close>
  memsets all the memory up to \<open>PHYSTOP\<close>. It clears the flag again, so that with poisoning on the next page
  freed is filled with 1 before it is linked, and with the value of the port, 0, it is only linked.
\<close>

theorem kinit_never_poisons:
  assumes "links_only link" "frees_in_turn freerange kend pages" "list_all (freeable kend) pages" "freeable kend pa"
  shows "\<exists>k'. kinit poison kend link freerange k = Some (Inr k') \<and> kinit_freeing k' = 0
    \<and> (\<forall>x. (\<forall>p. p \<in> set pages \<longrightarrow> 8 \<le> unat (x - p)) \<longrightarrow> bytes k' x = bytes k x)
    \<and> kfree KFREE_POISON kend link pa k' = Some (Inr (link pa k'))
    \<and> kfree 1 kend link pa k' = Some (Inr (link pa (k'\<lparr>bytes := \<lambda>x. if unat (x - pa) < 4096 then 1 else bytes k' x\<rparr>)))"
proof -
  obtain k1 where k1: "free_pages (kfree poison kend link) pages (k\<lparr>kinit_freeing := 1\<rparr>) = Some (Inr k1)"
    "\<forall>x. (\<forall>p. p \<in> set pages \<longrightarrow> 8 \<le> unat (x - p)) \<longrightarrow> bytes k1 x = bytes k x"
    using free_pages_quiet [OF assms(1,3), of "k\<lparr>kinit_freeing := 1\<rparr>" poison] by auto
  let ?k = "k1\<lparr>kinit_freeing := 0\<rparr>"
  have one: "(ucast (1 :: u32) :: u8) = 1" by code_simp
  have n: "(ucast PGSIZE :: u32) = 4096" unfolding PGSIZE_def by code_simp
  have "memset pa 1 4096 (bytes k1) = Some (Inr (pa, \<lambda>x. if unat (x - pa) < 4096 then 1 else bytes k1 x))"
    using memset_region [of 4096 pa 1 "bytes k1"] unfolding one by simp
  then have "kfree 1 kend link pa ?k =
      Some (Inr (link pa (?k\<lparr>bytes := \<lambda>x. if unat (x - pa) < 4096 then 1 else bytes k1 x\<rparr>)))"
    using assms(4) by (auto simp: kfree_def n freeable_def not_less not_le)
  with k1 assms(2,4) show ?thesis
    by (simp add: kinit_def frees_in_turn_def kfree_quiet KFREE_POISON_def cong: if_cong)
qed

text \<open>
  \<open>kfree\<close> panics on exactly the addresses that are not page-aligned or lie outside the memory between
  the end of the kernel and \<open>PHYSTOP\<close>, and then changes nothing; every page it accepts above \<open>KERNBASE\<close> lies in
  the core's own half of the board's DRAM.
\<close>

theorem kfree_accepts:
  assumes "KERNBASE \<le> kend"
  shows "(kfree KFREE_POISON kend link pa k = Some (Inl (Panic ''kfree''))) = (\<not> freeable kend pa)
    \<and> (freeable kend pa \<longrightarrow> 0x10000000 \<le> unat (S_AXI_addr (ucast pa)) \<and> unat (S_AXI_addr (ucast pa)) + 4096 \<le> 0x20000000)"
proof -
  have "0x10000000 \<le> unat (S_AXI_addr (ucast pa)) \<and> unat (S_AXI_addr (ucast pa)) + 4096 \<le> 0x20000000"
    if "freeable kend pa"
  proof -
    have "0x80000000 \<le> unat pa" "unat pa < 0x88000000"
      using that assms by (simp_all add: freeable_def KERNBASE_def PHYSTOP_def word_le_nat_alt word_less_nat_alt)
    with kernel_window [of pa] show ?thesis by auto
  qed
  then show ?thesis by (simp add: kfree_quiet KFREE_POISON_def)
qed

section \<open>Witnesses\<close>

definition empty_heap :: kheap where
  "empty_heap = \<lparr>bytes = (\<lambda>x. 0), freelist = 0, kinit_freeing = 0\<rparr>"

text \<open>Linking a page, with the old head of the list in its first eight bytes.\<close>

definition push_page :: "u64 \<Rightarrow> kheap \<Rightarrow> kheap" where
  "push_page pa k = k\<lparr>bytes := put_bytes st8 pa (bytes64 (freelist k)) (bytes k), freelist := pa\<rparr>"

lemma push_page_links: "links_only push_page"
  unfolding links_only_def push_page_def
  using kmem.ld_put_bytes_outside [of "bytes64 _"] by (simp add: ld8_def bytes64_def)

text \<open>A \<open>freerange\<close> that frees every whole page of its range, upwards.\<close>

definition pages_between :: "u64 \<Rightarrow> u64 \<Rightarrow> u64 list" where
  "pages_between a b = map (\<lambda>i. a + of_nat i * PGSIZE) [0..<(unat b - unat a) div 4096]"

definition free_upwards :: freer where
  "free_upwards f pa_start pa_end = free_pages f (pages_between pa_start pa_end)"

lemma kernel_pages_freeable:
  assumes "p \<in> set (pages_between 0x80020000 PHYSTOP)"
  shows "freeable 0x80020000 p"
proof -
  from assms obtain i where i: "i < 32736" and p: "p = 0x80020000 + of_nat i * 4096"
    by (auto simp: pages_between_def PGSIZE_def PHYSTOP_def KERNBASE_def)
  have "unat (of_nat i * 4096 :: u64) = i * 4096"
    using i by (simp add: unat_word_ariths unat_of_nat)
  then have "unat p = 0x80020000 + i * 4096"
    using i unfolding p by (subst unat_plus_if') simp
  with i show ?thesis
    by (simp add: freeable_def PGSIZE_def PHYSTOP_def KERNBASE_def word_le_nat_alt word_less_nat_alt
        word_unat_eq_iff unat_mod)
qed

theorem kinit_never_poisons_witness:
  "\<exists>k'. kinit 1 0x80020000 push_page free_upwards empty_heap = Some (Inr k') \<and> kinit_freeing k' = 0
    \<and> bytes k' 0x80000010 = 0"
proof -
  let ?pages = "pages_between 0x80020000 PHYSTOP"
  have turn: "frees_in_turn free_upwards 0x80020000 ?pages"
    by (simp add: frees_in_turn_def free_upwards_def)
  have all: "list_all (freeable 0x80020000) ?pages"
    using kernel_pages_freeable by (simp add: list_all_iff)
  have "freeable 0x80020000 0x80022000" by (simp add: freeable_def PGSIZE_def PHYSTOP_def KERNBASE_def)
  then obtain k' where k': "kinit 1 0x80020000 push_page free_upwards empty_heap = Some (Inr k')" "kinit_freeing k' = 0"
    "\<forall>x. (\<forall>p. p \<in> set ?pages \<longrightarrow> 8 \<le> unat (x - p)) \<longrightarrow> bytes k' x = bytes empty_heap x"
    using kinit_never_poisons [OF push_page_links turn all, of "0x80022000" 1 empty_heap] by auto
  have "8 \<le> unat (0x80000010 - p)" if "p \<in> set ?pages" for p
  proof -
    have p: "0x80020000 \<le> unat p" "unat p < 0x88000000"
      using kernel_pages_freeable [OF that]
      by (simp_all add: freeable_def PHYSTOP_def KERNBASE_def word_le_nat_alt word_less_nat_alt)
    then have "unat (0x80000010 - p) = 2 ^ 64 + 0x80000010 - unat p" by (subst unat_sub_if') simp
    with p show ?thesis by simp
  qed
  with k' show ?thesis by (auto simp: empty_heap_def)
qed

theorem kfree_accepts_witness:
  "kfree KFREE_POISON 0x80020000 push_page 0x80020010 empty_heap = Some (Inl (Panic ''kfree''))"
  using kfree_accepts [of "0x80020000" push_page "0x80020010" empty_heap]
  by (simp add: freeable_def PGSIZE_def KERNBASE_def)

end
