(* ===== verification/MemoryPlan.thy ===== *)
theory MemoryPlan
  imports Kalloc
begin

text \<open>
  Who owns which part of the board's DRAM: its size (\<open>board/soft_config/zynq_pynqz1.h\<close>), what Linux on the ARM
  cores is given and reserves (\<open>board/soft_config/pynqz1_devicetree.dts\<close>), where u-boot places the ramdisk
  (\<open>board/uEnv.txt\<close>), and the pages of xv6, through the memory window of \<open>Vm\<close> and the allocator of \<open>Kalloc\<close>.
\<close>

section \<open>The owners\<close>

definition CONFIG_SYS_SDRAM_SIZE :: nat where "CONFIG_SYS_SDRAM_SIZE = 512 * 1024 * 1024"

text \<open>Base and size.\<close>

definition linux_memory :: "nat \<times> nat" where "linux_memory = (0x0, 0x10000000)"
definition bootm :: "nat \<times> nat" where "bootm = (0x00000000, 0x08000000)"

text \<open>\<open>cma=16M\<close>: Linux takes the reservation from the top of its memory, as the comment in \<open>uEnv.txt\<close> says.\<close>

definition cma :: "nat \<times> nat" where
  "cma = (fst linux_memory + snd linux_memory - 16 * 1024 * 1024, 16 * 1024 * 1024)"

definition within :: "nat \<times> nat \<Rightarrow> nat \<Rightarrow> bool" where
  "within r x \<longleftrightarrow> fst r \<le> x \<and> x < fst r + snd r"

text \<open>The DRAM address behind an address of the core.\<close>

definition dram :: "u64 \<Rightarrow> nat" where
  "dram a = unat (S_AXI_addr (ucast a))"

section \<open>Nobody shares\<close>

lemma page_byte:
  assumes "KERNBASE \<le> kend" "freeable kend pa" "i < 4096"
  shows "unat (pa + of_nat i) = unat pa + i" "dram (pa + of_nat i) = unat pa + i - 0x70000000"
    "0x80000000 \<le> unat pa" "unat pa + i < 0x90000000"
proof -
  have pa: "0x80000000 \<le> unat pa" "unat pa < 0x88000000"
    using assms(1,2) by (simp_all add: freeable_def KERNBASE_def PHYSTOP_def word_le_nat_alt word_less_nat_alt)
  show u: "unat (pa + of_nat i) = unat pa + i"
    using pa assms(3) by (simp add: unat_word_ariths unat_of_nat)
  show "0x80000000 \<le> unat pa" "unat pa + i < 0x90000000" using pa assms(3) by simp_all
  then show "dram (pa + of_nat i) = unat pa + i - 0x70000000"
    using kernel_window [of "pa + of_nat i"] u by (simp add: dram_def)
qed

text \<open>
  C40: Every byte of every page that the kernel can allocate lies in the board's DRAM and outside what Linux
  owns, so neither the kernel, its processes nor a DMA into their buffers can overwrite Linux or be
  overwritten by it, and different bytes stay different behind the window. The ramdisk that u-boot places
  is inside the memory of Linux and clear of its reservation.
\<close>

theorem memory_plan:
  assumes "KERNBASE \<le> kend" "i < 4096" "j < 4096"
    and "kfree KFREE_POISON kend link pa k \<noteq> Some (Inl (Panic ''kfree''))"
    and "kfree KFREE_POISON kend link pb k \<noteq> Some (Inl (Panic ''kfree''))"
  shows "dram (pa + of_nat i) < CONFIG_SYS_SDRAM_SIZE \<and> \<not> within linux_memory (dram (pa + of_nat i))
    \<and> (dram (pa + of_nat i) = dram (pb + of_nat j) \<longleftrightarrow> pa + of_nat i = pb + of_nat j)
    \<and> (within bootm x \<longrightarrow> within linux_memory x \<and> \<not> within cma x)"
proof -
  have "freeable kend pa" "freeable kend pb"
    using assms(4,5) by (auto simp: kfree_quiet KFREE_POISON_def split: if_splits)
  note a = page_byte [OF assms(1) this(1) assms(2)] and b = page_byte [OF assms(1) this(2) assms(3)]
  have "dram (pa + of_nat i) < CONFIG_SYS_SDRAM_SIZE \<and> \<not> within linux_memory (dram (pa + of_nat i))"
    unfolding a(2) using a(3,4) by (simp add: CONFIG_SYS_SDRAM_SIZE_def within_def linux_memory_def) linarith
  moreover have "dram (pa + of_nat i) = dram (pb + of_nat j) \<longleftrightarrow> pa + of_nat i = pb + of_nat j"
    unfolding a(2) b(2) using a(1,3) b(1,3) by (auto simp: word_unat_eq_iff)
  moreover have "within bootm x \<longrightarrow> within linux_memory x \<and> \<not> within cma x"
    by (simp add: within_def bootm_def linux_memory_def cma_def)
  ultimately show ?thesis by simp
qed

theorem memory_plan_witness:
  "dram (0x80020000 + of_nat 7) \<noteq> dram (0x80021000 + of_nat 7) \<and> \<not> within linux_memory (dram (0x80020000 + of_nat 7))"
  using memory_plan [of "0x80020000" 7 7 push_page "0x80020000" empty_heap "0x80021000" 0]
  by (simp add: kfree_quiet KFREE_POISON_def freeable_def PGSIZE_def PHYSTOP_def KERNBASE_def)

end
