(* ===== verification/SendKernel.thy ===== *)
theory SendKernel
  imports Prelude
begin

text \<open>
  The file transfer over the serial console, \<open>tools/send-kernel.py\<close>: base64 in short lines typed into a
  shell on the board, with a check before and after. The serial port is a history of what was written
  and read; what the other side has sent by the time of a read is a parameter, and so are the
  compressor, the digest and the stripper. What the program prints for its user is left out, and so is the
  choice of the port.
\<close>

section \<open>Base64\<close>

text \<open>\<open>base64.b64encode\<close>: groups of three bytes, the last one padded.\<close>

definition b64_alphabet :: "u8 list" where
  "b64_alphabet = ascii ''ABCDEFGHIJKLMNOPQRSTUVWXYZabcdefghijklmnopqrstuvwxyz0123456789+/''"

definition b64_char :: "nat \<Rightarrow> u8" where
  "b64_char n = b64_alphabet ! n"

fun b64encode :: "u8 list \<Rightarrow> u8 list" where
  "b64encode [] = []"
| "b64encode [a] = (let x = unat a in
     [b64_char (x div 4), b64_char (x mod 4 * 16), 61, 61])"
| "b64encode [a, b] = (let x = unat a; y = unat b in
     [b64_char (x div 4), b64_char (x mod 4 * 16 + y div 16), b64_char (y mod 16 * 4), 61])"
| "b64encode (a # b # c # rest) = (let x = unat a; y = unat b; z = unat c in
     b64_char (x div 4) # b64_char (x mod 4 * 16 + y div 16) # b64_char (y mod 16 * 4 + z div 64)
     # b64_char (z mod 64) # b64encode rest)"

section \<open>The payload\<close>

datatype exception = IndexError | FileNotFoundError | CalledProcessError | Usage

text \<open>The first bytes of the file decide; \<open>head[5]\<close> raises when there are fewer than six.\<close>

definition elf_machine :: "u8 list \<Rightarrow> exception + nat option" where
  "elf_machine contents =
     (let head = take 20 contents in
      if take 4 head \<noteq> 0x7f # ascii ''ELF'' then Inr None
      else if length head \<le> 5 then Inl IndexError
      else let little = (head ! 5 = 1);
               field = take 2 (drop 18 head);
               digits = (if little then field else rev field)
           in Inr (Some (foldr (\<lambda>b n. unat b + 256 * n) digits 0)))"

definition EM_RISCV :: nat where "EM_RISCV = 243"
definition CHUNK_LINE :: nat where "CHUNK_LINE = 76"

definition DEST :: string where "DEST = ''/root/xv6-kernel''"

definition chunk_lines :: "u8 list \<Rightarrow> u8 list list" where
  "chunk_lines b64 = map (\<lambda>k. take CHUNK_LINE (drop (k * CHUNK_LINE) b64))
     [0..<(length b64 + CHUNK_LINE - 1) div CHUNK_LINE]"

section \<open>The serial port\<close>

text \<open>Times in milliseconds; the latest event of a history comes first.\<close>

datatype io = Sent "u8 list" | Flushed | Slept nat | Got "u8 list" | ResetInput

text \<open>
  \<open>has_strip\<close>: the stripper is installed; \<open>strip_debug\<close> fails with \<open>None\<close>. \<open>incoming h\<close>: what is waiting to be
  read after the history \<open>h\<close>.
\<close>

record tools =
  has_strip :: bool
  strip_debug :: "u8 list \<Rightarrow> u8 list option"
  gzip :: "u8 list \<Rightarrow> u8 list"
  md5hex :: "u8 list \<Rightarrow> u8 list"
  incoming :: "io list \<Rightarrow> u8 list"

definition read_port :: "tools \<Rightarrow> nat \<Rightarrow> io list \<Rightarrow> u8 list \<times> io list" where
  "read_port T n h = (let d = take n (incoming T h) in (d, Got d # h))"

definition cmd :: "tools \<Rightarrow> u8 list \<Rightarrow> nat \<Rightarrow> io list \<Rightarrow> u8 list \<times> io list" where
  "cmd T c wait h =
     (let h = Sent (c @ [10]) # h;
          h = Flushed # h;
          h = Slept wait # h
      in read_port T 262144 h)"

text \<open>\<open>p in xs\<close>\<close>

fun contains :: "'a list \<Rightarrow> 'a list \<Rightarrow> bool" where
  "contains p [] = (p = [])"
| "contains p (x # xs) = (take (length p) (x # xs) = p \<or> contains p xs)"

section \<open>The transfer\<close>

definition probe_cmd :: "u8 list" where "probe_cmd = ascii ''echo LINUX-$$''"

definition interrupt :: "io list \<Rightarrow> io list" where
  "interrupt h = Slept 150 # Flushed # Sent [3] # h"

definition preflight :: "tools \<Rightarrow> io list \<Rightarrow> u8 list \<times> io list" where
  "preflight T h =
     (let h = (interrupt ^^ 3) h;
          (_, h) = read_port T 262144 h;
          h = Sent [10] # h;
          h = Slept 400 # h;
          (_, h) = read_port T 262144 h;
          h = Sent (probe_cmd @ [10]) # h;
          h = Flushed # h;
          h = Slept 1200 # h
      in read_port T 262144 h)"

definition clean_cmd :: "u8 list" where
  "clean_cmd = ascii ''rm -f /root/k.new /root/k.gz; stty -echo; echo READY''"

definition decode_cmd :: "u8 list" where
  "decode_cmd = ascii ''base64 -d > /root/k.gz''"

fun send_lines :: "tools \<Rightarrow> nat \<Rightarrow> u8 list list \<Rightarrow> io list \<Rightarrow> io list" where
  "send_lines T n [] h = h"
| "send_lines T n (ln # lines) h =
     (let h = Sent (ln @ [10]) # h;
          h = Flushed # h;
          h = Slept 4 # h;
          h = (if n \<noteq> 0 \<and> n mod 400 = 0 then snd (read_port T 65536 h) else h)
      in send_lines T (Suc n) lines h)"

definition transfer :: "tools \<Rightarrow> u8 list list \<Rightarrow> io list \<Rightarrow> io list" where
  "transfer T lines h =
     (let (_, h) = cmd T clean_cmd 800 h;
          h = Sent (decode_cmd @ [10]) # h;
          h = Flushed # h;
          h = Slept 500 # h;
          (_, h) = read_port T 65536 h;
          h = send_lines T 0 lines h;
          h = Sent [4] # h;
          h = Flushed # h;
          h = Slept 1000 # h;
          (_, h) = read_port T 262144 h
      in h)"

definition check_cmd :: "u8 list" where
  "check_cmd = ascii ''stty echo; gunzip -c /root/k.gz > /root/k.new; md5sum /root/k.new''"

definition install_cmd :: "string \<Rightarrow> u8 list" where
  "install_cmd dest = ascii (''mv /root/k.new '' @ dest @ ''; rm -f /root/k.gz'')"

datatype outcome = Returned int | Raised exception

definition payload :: "tools \<Rightarrow> u8 list \<Rightarrow> exception + u8 list" where
  "payload T contents =
     (case elf_machine contents of
        Inl e \<Rightarrow> Inl e
      | Inr machine \<Rightarrow>
          if machine = Some EM_RISCV \<and> has_strip T then
            (case strip_debug T contents of None \<Rightarrow> Inl CalledProcessError | Some raw \<Rightarrow> Inr raw)
          else Inr contents)"

text \<open>From the raw bytes on.\<close>

definition send_file :: "tools \<Rightarrow> u8 list \<Rightarrow> string \<Rightarrow> int \<times> io list" where
  "send_file T raw dest =
     (let md5 = md5hex T raw;
          b64 = b64encode (gzip T raw);
          lines = chunk_lines b64;
          h = [ResetInput];
          (probe, h) = preflight T h
      in if \<not> contains (ascii ''LINUX-'') probe then (1, h)
         else
           let h = transfer T lines h;
               (out, h) = cmd T check_cmd 3000 h
           in if contains md5 out then
                let (_, h) = cmd T (install_cmd dest) 1000 h in (0, h)
              else (1, h))"

text \<open>\<open>files\<close>: the contents of the files by name; \<open>argv\<close> with the program's name first.\<close>

definition send_main :: "tools \<Rightarrow> (string \<Rightarrow> u8 list option) \<Rightarrow> string list \<Rightarrow> outcome \<times> io list" where
  "send_main T files argv =
     (if length argv < 2 then (Raised Usage, [])
      else
        let src = argv ! 1;
            dest = (if 2 < length argv then argv ! 2 else DEST)
        in case files src of
             None \<Rightarrow> (Raised FileNotFoundError, [])
           | Some contents \<Rightarrow>
               (case payload T contents of
                  Inl e \<Rightarrow> (Raised e, [])
                | Inr raw \<Rightarrow> map_prod Returned id (send_file T raw dest)))"

section \<open>The lines\<close>

lemma concat_pieces: "concat (map (\<lambda>k. take n (drop (k * n) xs)) [0..<m]) = take (m * n) xs"
proof (induction m)
  case 0
  then show ?case by simp
next
  case (Suc m)
  then show ?case by (simp add: add.commute [of n] take_add)
qed

lemma chunk_lines_whole: "concat (chunk_lines b) = b"
proof -
  have "length b \<le> (length b + CHUNK_LINE - 1) div CHUNK_LINE * CHUNK_LINE"
    unfolding CHUNK_LINE_def by linarith
  then show ?thesis unfolding chunk_lines_def concat_pieces by simp
qed

lemma chunk_lines_short: "l \<in> set (chunk_lines b) \<Longrightarrow> length l \<le> 76 \<and> set l \<subseteq> set b"
  by (auto simp: chunk_lines_def CHUNK_LINE_def dest: in_set_takeD in_set_dropD)

lemma b64_chars: "set b64_alphabet \<inter> {4, 10, 61} = {}" "length b64_alphabet = 64" "distinct b64_alphabet"
proof -
  show "set b64_alphabet \<inter> {4, 10, 61} = {}" unfolding b64_alphabet_def ascii_def by code_simp
  show "length b64_alphabet = 64" unfolding b64_alphabet_def ascii_def by simp
  show "distinct b64_alphabet" unfolding b64_alphabet_def ascii_def by code_simp
qed

lemma b64_char_in: "n < 64 \<Longrightarrow> b64_char n \<in> set b64_alphabet"
  by (simp add: b64_char_def b64_chars(2))

lemma u8_digits:
  fixes a b :: u8
  shows "unat a div 4 < 64" "unat a mod 4 * 16 + unat b div 16 < 64" "unat a mod 16 * 4 + unat b div 64 < 64"
    "unat a mod 64 < 64" "unat a mod 4 * 16 < 64" "unat a mod 16 * 4 < 64"
proof -
  have a: "unat a < 256" and b: "unat b < 256" using unat_less_exp [of a] unat_less_exp [of b] by simp_all
  show "unat a div 4 < 64" using a by simp
  have "unat b div 16 < 16" "unat b div 64 < 4" using b by simp_all
  moreover have "unat a mod 4 < 4" "unat a mod 16 < 16" "unat a mod 64 < 64" by simp_all
  ultimately show "unat a mod 4 * 16 + unat b div 16 < 64" "unat a mod 16 * 4 + unat b div 64 < 64"
    "unat a mod 64 < 64" "unat a mod 4 * 16 < 64" "unat a mod 16 * 4 < 64"
    by linarith+
qed

lemma b64encode_set: "set (b64encode xs) \<subseteq> insert 61 (set b64_alphabet)"
  by (induction xs rule: b64encode.induct) (simp_all add: Let_def b64_char_in u8_digits)

lemma b64encode_plain: "10 \<notin> set (b64encode xs)" "4 \<notin> set (b64encode xs)"
  using b64encode_set [of xs] b64_chars(1) by (auto dest!: subsetD)

section \<open>What the board receives\<close>

text \<open>
  A terminal in canonical mode: bytes are collected up to a newline, which delivers the line. Its line
  buffer holds \<open>cap\<close> bytes, the newline included; what does not fit is lost. End of file (4) at the start of a line
  ends the input.
\<close>

fun tty_input :: "nat \<Rightarrow> u8 list \<Rightarrow> u8 list \<Rightarrow> u8 list" where
  "tty_input cap cur [] = []"
| "tty_input cap cur (b # bs) =
     (if b = 10 then cur @ [10] @ tty_input cap [] bs
      else if b = 4 then if cur = [] then [] else cur @ tty_input cap [] bs
      else tty_input cap (if length cur + 1 < cap then cur @ [b] else cur) bs)"

lemma tty_line:
  assumes "10 \<notin> set l" "4 \<notin> set l" "length cur + length l < cap"
  shows "tty_input cap cur (l @ 10 # bs) = cur @ l @ 10 # tty_input cap [] bs"
  using assms by (induction l arbitrary: cur) auto

lemma tty_lines:
  assumes "\<And>l. l \<in> set lines \<Longrightarrow> 10 \<notin> set l \<and> 4 \<notin> set l \<and> length l < cap"
  shows "tty_input cap [] (concat (map (\<lambda>l. l @ [10]) lines) @ [4]) = concat (map (\<lambda>l. l @ [10]) lines)"
  using assms
proof (induction lines)
  case Nil
  then show ?case by simp
next
  case (Cons l lines)
  from Cons.prems [of l] Cons.IH Cons.prems show ?case by (simp add: tty_line)
qed

text \<open>What was typed between the command that decodes and the end of file.\<close>

fun sent_bytes :: "io \<Rightarrow> u8 list" where
  "sent_bytes (Sent b) = b"
| "sent_bytes _ = []"

definition data_sent :: "io list \<Rightarrow> u8 list" where
  "data_sent h =
     concat (map sent_bytes (takeWhile (\<lambda>e. e \<noteq> Sent [4])
       (tl (dropWhile (\<lambda>e. e \<noteq> Sent (decode_cmd @ [10])) (rev h))))) @ [4]"

lemma send_lines_sent:
  "\<exists>es. send_lines T n lines h = rev es @ h \<and> concat (map sent_bytes es) = concat (map (\<lambda>l. l @ [10]) lines)
     \<and> (\<forall>b. Sent b \<in> set es \<longrightarrow> b \<in> (\<lambda>l. l @ [10]) ` set lines)"
proof (induction lines arbitrary: n h)
  case Nil
  then show ?case by simp
next
  case (Cons ln lines)
  let ?h = "Slept 4 # Flushed # Sent (ln @ [10]) # h"
  let ?tail = "if n \<noteq> 0 \<and> n mod 400 = 0 then [Got (take 65536 (incoming T ?h))] else []"
  obtain es where es: "send_lines T (Suc n) lines (?tail @ ?h) = rev es @ ?tail @ ?h"
      "concat (map sent_bytes es) = concat (map (\<lambda>l. l @ [10]) lines)"
      "\<forall>b. Sent b \<in> set es \<longrightarrow> b \<in> (\<lambda>l. l @ [10]) ` set lines"
    using Cons.IH by blast
  have "send_lines T n (ln # lines) h = rev ([Sent (ln @ [10]), Flushed, Slept 4] @ ?tail @ es) @ h"
    using es(1) by (auto simp: Let_def read_port_def)
  moreover have "\<forall>b. Sent b \<in> set ([Sent (ln @ [10]), Flushed, Slept 4] @ ?tail @ es)
      \<longrightarrow> b \<in> (\<lambda>l. l @ [10]) ` set (ln # lines)"
    using es(3) by auto
  ultimately show ?case
    using es(2) by (intro exI [of _ "[Sent (ln @ [10]), Flushed, Slept 4] @ ?tail @ es"]) simp
qed

text \<open>The histories of the stages, the earliest event first.\<close>

lemma preflight_events:
  "Sent b \<in> set (snd (preflight T [ResetInput])) \<Longrightarrow> b \<in> {[3], [10], probe_cmd @ [10]}"
  by (auto simp: preflight_def read_port_def interrupt_def numeral_3_eq_3 Let_def)

lemma literals_differ:
  "decode_cmd @ [10] \<notin> {[3], [10], probe_cmd @ [10], clean_cmd @ [10], [4], check_cmd @ [10]}"
  "install_cmd dest @ [10] \<notin> {[3], [10], probe_cmd @ [10], clean_cmd @ [10], [4], check_cmd @ [10], decode_cmd @ [10]}"
  by (simp_all add: decode_cmd_def probe_cmd_def clean_cmd_def check_cmd_def install_cmd_def ascii_def)

lemma transfer_events:
  "\<exists>g1 g2 g3 es. transfer T lines h = rev ([Sent (clean_cmd @ [10]), Flushed, Slept 800, Got g1,
       Sent (decode_cmd @ [10]), Flushed, Slept 500, Got g2] @ es @ [Sent [4], Flushed, Slept 1000, Got g3]) @ h
     \<and> concat (map sent_bytes es) = concat (map (\<lambda>l. l @ [10]) lines)
     \<and> (\<forall>b. Sent b \<in> set es \<longrightarrow> b \<in> (\<lambda>l. l @ [10]) ` set lines)"
proof -
  define g1 where "g1 = take 262144 (incoming T (Slept 800 # Flushed # Sent (clean_cmd @ [10]) # h))"
  define h1 where "h1 = Slept 500 # Flushed # Sent (decode_cmd @ [10]) # Got g1 # Slept 800 # Flushed # Sent (clean_cmd @ [10]) # h"
  obtain es where es: "send_lines T 0 lines (Got (take 65536 (incoming T h1)) # h1) = rev es @ Got (take 65536 (incoming T h1)) # h1"
      "concat (map sent_bytes es) = concat (map (\<lambda>l. l @ [10]) lines)"
      "\<forall>b. Sent b \<in> set es \<longrightarrow> b \<in> (\<lambda>l. l @ [10]) ` set lines"
    using send_lines_sent by blast
  show ?thesis
    by (rule exI [of _ g1], rule exI [of _ "take 65536 (incoming T h1)"], rule exI, rule exI [of _ es])
       (use es in \<open>simp add: transfer_def cmd_def read_port_def Let_def flip: g1_def h1_def\<close>)
qed

lemma data_sent_eq:
  assumes "\<forall>b. Sent b \<in> set h \<longrightarrow> b \<noteq> decode_cmd @ [10]" "Sent [4] \<notin> set es"
    "concat (map sent_bytes es) = bs"
  shows "data_sent (rest @ rev ([Sent (clean_cmd @ [10]), Flushed, Slept 800, Got g1,
       Sent (decode_cmd @ [10]), Flushed, Slept 500, Got g2] @ es @ [Sent [4], Flushed, Slept 1000, Got g3]) @ h)
    = bs @ [4]"
proof -
  have d: "dropWhile (\<lambda>e. e \<noteq> Sent (decode_cmd @ [10])) (rev h @ ys) = dropWhile (\<lambda>e. e \<noteq> Sent (decode_cmd @ [10])) ys" for ys
    using assms(1) by (intro dropWhile_append2) auto
  have t: "takeWhile (\<lambda>e. e \<noteq> Sent [4]) (es @ Sent [4] # ys) = es" for ys
    using assms(2) by (subst takeWhile_append2) auto
  have "clean_cmd \<noteq> decode_cmd" using literals_differ(1) by auto
  then show ?thesis
    using assms(3) by (simp add: data_sent_def d t)
qed

section \<open>A file arrives whole\<close>

lemma line_bytes:
  assumes "b \<in> (\<lambda>l. l @ [10]) ` set (chunk_lines (b64encode x))"
  shows "b \<noteq> [4]" "set b \<subseteq> {10, 61} \<union> set b64_alphabet"
  using assms chunk_lines_short [of _ "b64encode x"] b64encode_set [of x] by fastforce+

lemma not_a_line: "c @ [10] \<notin> (\<lambda>l. l @ [10]) ` set (chunk_lines (b64encode x))" if "32 \<in> set c"
proof
  assume "c @ [10] \<in> (\<lambda>l. l @ [10]) ` set (chunk_lines (b64encode x))"
  from line_bytes(2) [OF this] that have "32 \<in> set b64_alphabet" by auto
  then show False unfolding b64_alphabet_def ascii_def by simp
qed

lemma spaces: "32 \<in> set decode_cmd" "32 \<in> set (install_cmd dest)"
  by (simp_all add: decode_cmd_def install_cmd_def ascii_def)

text \<open>A history up to the end of the transfer of \<open>raw\<close>.\<close>

definition after_transfer :: "tools \<Rightarrow> u8 list \<Rightarrow> io list \<Rightarrow> bool" where
  "after_transfer T raw h \<longleftrightarrow> (\<exists>g1 g2 g3 es h0.
     h = rev ([Sent (clean_cmd @ [10]), Flushed, Slept 800, Got g1,
         Sent (decode_cmd @ [10]), Flushed, Slept 500, Got g2] @ es @ [Sent [4], Flushed, Slept 1000, Got g3]) @ h0
     \<and> (\<forall>b. Sent b \<in> set h0 \<longrightarrow> b \<in> {[3], [10], probe_cmd @ [10]})
     \<and> concat (map sent_bytes es) = concat (map (\<lambda>l. l @ [10]) (chunk_lines (b64encode (gzip T raw))))
     \<and> (\<forall>b. Sent b \<in> set es \<longrightarrow> b \<in> (\<lambda>l. l @ [10]) ` set (chunk_lines (b64encode (gzip T raw)))))"

lemma after_transferD:
  assumes "after_transfer T raw h"
  shows "data_sent (rest @ h) = concat (map (\<lambda>l. l @ [10]) (chunk_lines (b64encode (gzip T raw)))) @ [4]"
    "Sent (install_cmd d @ [10]) \<notin> set h" "Sent (decode_cmd @ [10]) \<in> set h"
proof -
  let ?lines = "(\<lambda>l. l @ [10]) ` set (chunk_lines (b64encode (gzip T raw)))"
  obtain g1 g2 g3 es h0 where h: "h = rev ([Sent (clean_cmd @ [10]), Flushed, Slept 800, Got g1,
         Sent (decode_cmd @ [10]), Flushed, Slept 500, Got g2] @ es @ [Sent [4], Flushed, Slept 1000, Got g3]) @ h0"
      "\<forall>b. Sent b \<in> set h0 \<longrightarrow> b \<in> {[3], [10], probe_cmd @ [10]}"
      "concat (map sent_bytes es) = concat (map (\<lambda>l. l @ [10]) (chunk_lines (b64encode (gzip T raw))))"
      "\<forall>b. Sent b \<in> set es \<longrightarrow> b \<in> ?lines"
    using assms unfolding after_transfer_def by blast
  show "data_sent (rest @ h) = concat (map (\<lambda>l. l @ [10]) (chunk_lines (b64encode (gzip T raw)))) @ [4]"
    unfolding h(1) by (rule data_sent_eq [OF _ _ h(3)]) (use h(2,4) literals_differ(1) line_bytes(1) in blast)+
  have "Sent (install_cmd d @ [10]) \<notin> set h0" "Sent (install_cmd d @ [10]) \<notin> set es"
    using h(2,4) literals_differ(2) [of d] not_a_line [OF spaces(2) [of d]] by blast+
  with literals_differ(2) [of d] show "Sent (install_cmd d @ [10]) \<notin> set h"
    unfolding h(1) by auto
  show "Sent (decode_cmd @ [10]) \<in> set h" unfolding h(1) by simp
qed

lemma send_file_cases:
  "(\<exists>h. send_file T raw dest = (1, h) \<and> (\<forall>b. Sent b \<in> set h \<longrightarrow> b \<in> {[3], [10], probe_cmd @ [10]})
      \<and> \<not> contains (ascii ''LINUX-'') (fst (preflight T [ResetInput])))
   \<or> (\<exists>out h g. after_transfer T raw h
       \<and> (let h' = Got out # Slept 3000 # Flushed # Sent (check_cmd @ [10]) # h in
          if contains (md5hex T raw) out
          then send_file T raw dest = (0, Got g # Slept 1000 # Flushed # Sent (install_cmd dest @ [10]) # h')
          else send_file T raw dest = (1, h')))"
proof (cases "contains (ascii ''LINUX-'') (fst (preflight T [ResetInput]))")
  case False
  with preflight_events [of _ T] show ?thesis
    by (intro disjI1) (auto simp: send_file_def Let_def split: prod.splits)
next
  case True
  define h where "h = transfer T (chunk_lines (b64encode (gzip T raw))) (snd (preflight T [ResetInput]))"
  have "after_transfer T raw h"
    unfolding after_transfer_def h_def
    using transfer_events [of T "chunk_lines (b64encode (gzip T raw))" "snd (preflight T [ResetInput])"]
      preflight_events [of _ T] by blast
  moreover define out where "out = fst (cmd T check_cmd 3000 h)"
  have "send_file T raw dest = (if contains (md5hex T raw) out
      then (0, snd (cmd T (install_cmd dest) 1000 (snd (cmd T check_cmd 3000 h)))) else (1, snd (cmd T check_cmd 3000 h)))"
    using True by (simp add: send_file_def Let_def h_def out_def case_prod_beta)
  then have "\<exists>g. let h' = Got out # Slept 3000 # Flushed # Sent (check_cmd @ [10]) # h in
      if contains (md5hex T raw) out
      then send_file T raw dest = (0, Got g # Slept 1000 # Flushed # Sent (install_cmd dest @ [10]) # h')
      else send_file T raw dest = (1, h')"
    by (simp add: cmd_def read_port_def Let_def out_def)
  ultimately show ?thesis by blast
qed

lemma send_main_file:
  assumes "send_main T files argv = (r, h)"
  shows "(\<exists>e. r = Raised e) \<and> h = []
    \<or> (\<exists>contents raw k. files (argv ! 1) = Some contents \<and> payload T contents = Inr raw \<and> r = Returned k
        \<and> send_file T raw (if 2 < length argv then argv ! 2 else DEST) = (k, h))"
proof -
  have "map_prod Returned id p = (r, h) \<Longrightarrow> \<exists>k. r = Returned k \<and> p = (k, h)" for p :: "int \<times> io list"
    by (cases p) auto
  with assms show ?thesis
    by (auto simp: send_main_def Let_def split: if_splits option.splits sum.splits)
qed

text \<open>
  C35: The file arrives whole. Once the transfer has started, the bytes typed between the decoding command
  and the end of file pass a terminal in canonical mode, whose line buffer holds at least 77 bytes, without
  loss, and decoded and decompressed they are the payload: the file, stripped if it is a RISC-V program.
\<close>

theorem transfer_intact:
  assumes "send_main T files argv = (r, h)" "Sent (decode_cmd @ [10]) \<in> set h" "76 < cap"
    and gzip: "\<And>x. gunzip (gzip T x) = Some x"
    and decode: "\<And>x bs. filter (\<lambda>b. b \<noteq> 10) bs = b64encode x \<Longrightarrow> b64d bs = Some x"
  shows "\<exists>contents raw. files (argv ! 1) = Some contents \<and> payload T contents = Inr raw
    \<and> Option.bind (b64d (tty_input cap [] (data_sent h))) gunzip = Some raw"
proof -
  obtain contents raw k where found: "files (argv ! 1) = Some contents" "payload T contents = Inr raw"
      "send_file T raw (if 2 < length argv then argv ! 2 else DEST) = (k, h)"
    using send_main_file [OF assms(1)] assms(2) by fastforce
  let ?b = "b64encode (gzip T raw)"
  let ?data = "concat (map (\<lambda>l. l @ [10]) (chunk_lines ?b))"
  have nl: "filter (\<lambda>b. b \<noteq> 10) (concat (map (\<lambda>l. l @ [10]) ls)) = filter (\<lambda>b. b \<noteq> 10) (concat ls)" for ls :: "u8 list list"
    by (induction ls) simp_all
  have "filter (\<lambda>b. b \<noteq> 10) ?b = ?b" using b64encode_plain(1) by (simp add: filter_id_conv) metis
  then have "filter (\<lambda>b. b \<noteq> 10) ?data = ?b" unfolding nl chunk_lines_whole .
  from decode [OF this] have "b64d ?data = Some (gzip T raw)" .
  moreover have "tty_input cap [] (?data @ [4]) = ?data"
    by (rule tty_lines) (use chunk_lines_short [of _ ?b] b64encode_plain [of "gzip T raw"] assms(3) in fastforce)
  moreover have "data_sent h = ?data @ [4]"
    using send_file_cases [of T raw "if 2 < length argv then argv ! 2 else DEST"] found(3) assms(2) literals_differ(1)
      after_transferD(1) [of T raw _ "[_, _, _, _, _, _, _, _]"] after_transferD(1) [of T raw _ "[_, _, _, _]"]
    by (auto simp: Let_def split: if_splits)
  ultimately show ?thesis using found gzip by simp
qed

section \<open>Only a verified file is installed\<close>

text \<open>
  C36: The old file is replaced only by a verified one. The program installs if and only if it returns 0, and
  then the board had answered the check with the digest of the payload just before; the file is moved to
  the name given, or to the default, and nothing was moved before.
\<close>

theorem installs_only_verified:
  assumes "send_main T files argv = (r, h)" "dest = (if 2 < length argv then argv ! 2 else DEST)"
  shows "(r = Returned 0 \<longleftrightarrow> Sent (install_cmd dest @ [10]) \<in> set h)
    \<and> (r = Returned 0 \<longrightarrow> (\<exists>contents raw out h0 g. files (argv ! 1) = Some contents \<and> payload T contents = Inr raw
        \<and> h = Got g # Slept 1000 # Flushed # Sent (install_cmd dest @ [10])
              # Got out # Slept 3000 # Flushed # Sent (check_cmd @ [10]) # h0
        \<and> contains (md5hex T raw) out \<and> (\<forall>d. Sent (install_cmd d @ [10]) \<notin> set h0)))"
  using send_main_file [OF assms(1)]
proof (elim disjE exE conjE)
  fix contents raw k
  assume found: "files (argv ! 1) = Some contents" "payload T contents = Inr raw" "r = Returned k"
    "send_file T raw (if 2 < length argv then argv ! 2 else DEST) = (k, h)"
  have install: "Sent (install_cmd dest @ [10]) \<notin> set h" if "\<forall>b. Sent b \<in> set h \<longrightarrow> b \<in> {[3], [10], probe_cmd @ [10]}" for h
    using that literals_differ(2) [of dest] by auto
  show ?thesis
    using send_file_cases [of T raw dest]
  proof (elim disjE exE conjE)
    fix h1 assume "send_file T raw dest = (1, h1)" "\<forall>b. Sent b \<in> set h1 \<longrightarrow> b \<in> {[3], [10], probe_cmd @ [10]}"
    with install [of h1] found assms(2) show ?thesis by simp
  next
    fix out h1 g
    assume "after_transfer T raw h1"
      and "let h' = Got out # Slept 3000 # Flushed # Sent (check_cmd @ [10]) # h1 in
          if contains (md5hex T raw) out
          then send_file T raw dest = (0, Got g # Slept 1000 # Flushed # Sent (install_cmd dest @ [10]) # h')
          else send_file T raw dest = (1, h')"
    with after_transferD(2) literals_differ(2) [of dest] found show ?thesis
      unfolding assms(2) [symmetric] by (auto simp: Let_def split: if_splits)
  qed
qed simp_all

section \<open>The check before the transfer\<close>

lemma contains_iff: "contains p xs \<longleftrightarrow> (\<exists>a b. xs = a @ p @ b)"
proof (induction xs)
  case Nil
  then show ?case by simp
next
  case (Cons x xs)
  have "take (length p) (x # xs) = p \<longleftrightarrow> (\<exists>b. x # xs = p @ b)"
    by (metis append_eq_conv_conj)
  with Cons show ?case by (auto simp: Cons_eq_append_conv)
qed

text \<open>
  C39: The check before the transfer does not tell an ARM Linux shell from anything else that echoes: the
  text it looks for is part of the command it sends. Whatever is on the other side, if it sends the probe
  command back, as the console of xv6 and the prompt of u-boot do, the transfer starts.
\<close>

theorem preflight_fooled_by_echo:
  assumes "2 \<le> length argv" "files (argv ! 1) = Some contents" "payload T contents = Inr raw"
    and echo: "\<And>h. contains probe_cmd (take 262144 (incoming T (Slept 1200 # Flushed # Sent (probe_cmd @ [10]) # h)))"
  shows "Sent (decode_cmd @ [10]) \<in> set (snd (send_main T files argv))"
proof -
  have "probe_cmd = ascii ''echo '' @ ascii ''LINUX-'' @ ascii ''$$''" by (simp add: probe_cmd_def ascii_def)
  then have linux: "contains probe_cmd xs \<Longrightarrow> contains (ascii ''LINUX-'') xs" for xs
    unfolding contains_iff by (metis append.assoc)
  have "contains (ascii ''LINUX-'') (fst (preflight T [ResetInput]))"
    by (rule linux) (simp add: preflight_def read_port_def Let_def echo)
  then have "Sent (decode_cmd @ [10]) \<in> set (snd (send_file T raw d))" for d
    using send_file_cases [of T raw d] after_transferD(3) by (auto simp: Let_def split: if_splits)
  with assms(1-3) show ?thesis by (simp add: send_main_def Let_def)
qed

section \<open>Witnesses\<close>

text \<open>A decoder of base64 that ignores newlines.\<close>

definition b64_val :: "u8 \<Rightarrow> nat" where
  "b64_val c = length (takeWhile (\<lambda>x. x \<noteq> c) b64_alphabet)"

fun b64_groups :: "u8 list \<Rightarrow> u8 list" where
  "b64_groups (p # q # r # s # rest) =
     (let a = b64_val p; b = b64_val q; c = b64_val r; d = b64_val s in
      if s = 61 then
        if r = 61 then [of_nat (a * 4 + b div 16)]
        else [of_nat (a * 4 + b div 16), of_nat (b mod 16 * 16 + c div 4)]
      else of_nat (a * 4 + b div 16) # of_nat (b mod 16 * 16 + c div 4) # of_nat (c mod 4 * 64 + d) # b64_groups rest)"
| "b64_groups _ = []"

lemma b64_val_char: "n < 64 \<Longrightarrow> b64_val (b64_char n) = n"
proof -
  assume n: "n < 64"
  have "takeWhile (\<lambda>x. x \<noteq> b64_alphabet ! n) b64_alphabet = take n b64_alphabet"
    using n b64_chars(2,3) by (intro takeWhile_eq_take_P_nth) (auto simp: nth_eq_iff_index_eq)
  with n b64_chars(2) show ?thesis by (simp add: b64_val_def b64_char_def)
qed

lemma b64_char_pad: "n < 64 \<Longrightarrow> b64_char n \<noteq> 61"
  using b64_char_in [of n] b64_chars(1) by auto

lemma join_digits:
  fixes a b c :: nat
  shows "b < 256 \<Longrightarrow> a div 4 * 4 + (a mod 4 * 16 + b div 16) div 16 = a"
    "b < 256 \<Longrightarrow> c < 256 \<Longrightarrow> (a mod 4 * 16 + b div 16) mod 16 * 16 + (b mod 16 * 4 + c div 64) div 4 = b"
    "c < 256 \<Longrightarrow> (b mod 16 * 4 + c div 64) mod 4 * 64 + c mod 64 = c"
proof -
  have b: "b < 256 \<Longrightarrow> b div 16 < 16" and c: "c < 256 \<Longrightarrow> c div 64 < 4" by simp_all
  show "b < 256 \<Longrightarrow> a div 4 * 4 + (a mod 4 * 16 + b div 16) div 16 = a"
    using b by simp
  show "b < 256 \<Longrightarrow> c < 256 \<Longrightarrow> (a mod 4 * 16 + b div 16) mod 16 * 16 + (b mod 16 * 4 + c div 64) div 4 = b"
    using b c by simp
  show "c < 256 \<Longrightarrow> (b mod 16 * 4 + c div 64) mod 4 * 64 + c mod 64 = c"
    using c by simp
qed

lemma u8_small: "unat (a :: u8) < 256"
  using unat_less_exp [of a] by simp

lemma b64_groups_encode: "b64_groups (b64encode xs) = xs"
proof (induction xs rule: b64encode.induct)
  case (2 a)
  have "unat a div 4 * 4 + unat a mod 4 * 16 div 16 = unat a" using join_digits(1) [of 0 "unat a"] by simp
  then show ?case by (simp add: Let_def b64_val_char u8_digits del: of_nat_add of_nat_mult)
next
  case (3 a b)
  have "(unat a mod 4 * 16 + unat b div 16) mod 16 * 16 + unat b mod 16 * 4 div 4 = unat b"
    using join_digits(2) [of "unat b" 0 "unat a"] u8_small [of b] by simp
  with join_digits(1) [OF u8_small] show ?case
    by (simp add: Let_def b64_val_char u8_digits b64_char_pad del: of_nat_add of_nat_mult)
next
  case (4 a b c rest)
  with join_digits(1) [OF u8_small] join_digits(2) [OF u8_small u8_small] join_digits(3) [OF u8_small] show ?case
    by (simp add: Let_def b64_val_char u8_digits b64_char_pad del: of_nat_add of_nat_mult)
qed simp

definition sample_tools :: tools where
  "sample_tools = \<lparr>has_strip = False, strip_debug = (\<lambda>x. None), gzip = (\<lambda>x. x), md5hex = (\<lambda>x. ascii ''d41d8cd9''),
     incoming = (\<lambda>h. ascii ''echo LINUX-$$ LINUX-77 d41d8cd9'')\<rparr>"

definition sample_files :: "string \<Rightarrow> u8 list option" where
  "sample_files name = Some [1, 2, 3, 4]"

lemma sample_payload: "payload sample_tools [1, 2, 3, 4] = Inr [1, 2, 3, 4]"
  by (simp add: payload_def elf_machine_def sample_tools_def ascii_def)

theorem preflight_fooled_by_echo_witness:
  "Sent (decode_cmd @ [10]) \<in> set (snd (send_main sample_tools sample_files [''send-kernel.py'', ''k'']))"
proof (rule preflight_fooled_by_echo [where contents = "[1, 2, 3, 4]" and raw = "[1, 2, 3, 4]"])
  show "contains probe_cmd (take 262144 (incoming sample_tools h))" for h
    by (simp add: sample_tools_def probe_cmd_def ascii_def)
qed (simp_all add: sample_files_def sample_payload)

lemma sample_started:
  "Sent (decode_cmd @ [10]) \<in> set (snd (send_main sample_tools sample_files [''send-kernel.py'', ''k'']))"
proof -
  have "contains (ascii ''LINUX-'') (fst (preflight sample_tools [ResetInput]))"
    by (simp add: preflight_def read_port_def Let_def sample_tools_def ascii_def)
  then have "Sent (decode_cmd @ [10]) \<in> set (snd (send_file sample_tools [1, 2, 3, 4] DEST))"
    using send_file_cases [of sample_tools "[1, 2, 3, 4]" DEST] after_transferD(3) by (auto simp: Let_def split: if_splits)
  then show ?thesis by (simp add: send_main_def Let_def sample_files_def sample_payload)
qed

theorem transfer_intact_witness:
  "Option.bind (Some (b64_groups (filter (\<lambda>b. b \<noteq> 10)
     (tty_input 4096 [] (data_sent (snd (send_main sample_tools sample_files [''send-kernel.py'', ''k''])))))))
     (\<lambda>x. Some x) = Some [1, 2, 3, 4]"
proof -
  obtain r h where h: "send_main sample_tools sample_files [''send-kernel.py'', ''k''] = (r, h)" by fastforce
  have "\<exists>contents raw. sample_files ([''send-kernel.py'', ''k''] ! 1) = Some contents \<and> payload sample_tools contents = Inr raw
    \<and> Option.bind ((\<lambda>bs. Some (b64_groups (filter (\<lambda>b. b \<noteq> 10) bs))) (tty_input 4096 [] (data_sent h))) (\<lambda>x. Some x) = Some raw"
    by (rule transfer_intact [OF h])
       (use sample_started h in \<open>simp_all add: sample_tools_def b64_groups_encode\<close>)
  then show ?thesis by (simp add: h sample_files_def sample_payload)
qed

theorem installs_only_verified_witness:
  "fst (send_main sample_tools sample_files [''send-kernel.py'', ''k'']) = Returned 0
   \<and> Sent (install_cmd DEST @ [10]) \<in> set (snd (send_main sample_tools sample_files [''send-kernel.py'', ''k'']))"
proof -
  obtain r h where h: "send_main sample_tools sample_files [''send-kernel.py'', ''k''] = (r, h)" by fastforce
  have linux: "contains (ascii ''LINUX-'') (take n (incoming sample_tools h))" if "n = 262144" for n h
    using that by (simp add: sample_tools_def ascii_def)
  have digest: "contains (md5hex sample_tools x) (take n (incoming sample_tools h))" if "n = 262144" for x n h
    using that by (simp add: sample_tools_def ascii_def)
  have "fst (send_file sample_tools [1, 2, 3, 4] DEST) = 0"
    using linux digest by (simp add: send_file_def preflight_def cmd_def read_port_def Let_def case_prod_beta)
  then have "r = Returned 0"
    using h by (cases "send_file sample_tools [1, 2, 3, 4] DEST") (simp add: send_main_def sample_files_def sample_payload Let_def)
  with installs_only_verified [OF h refl] show ?thesis by (simp add: h)
qed

end
