(* ===== verification/SerialListen.thy ===== *)
theory SerialListen
  imports Prelude
begin

text \<open>
  The console listener \<open>tools/serial-listen.py\<close>: the main thread scans for serial nodes and starts a thread
  for each one that is not watched yet; a thread reads its node until the node disappears, and then gives it up
  for the scanner to find again. The set \<open>watched\<close> is only touched under the lock, so each section under
  the lock is one step; between any two steps any other thread may run. What the program prints is left out.
\<close>

section \<open>The threads\<close>

text \<open>
  A thread in \<open>watch\<close>: about to call \<open>open_ro\<close>, in its loop with the number of bytes read so far, or in the \<open>finally\<close>
  block. \<open>todo\<close> and \<open>adopted\<close> are the main thread's: the nodes of the current scan still to visit, and the
  node that it has added to \<open>watched\<close> and not started a thread for.
\<close>

datatype phase = Opening | Reading nat | Closing

record listener =
  watched :: "string set"
  threads :: "(string \<times> phase) list"
  todo :: "string list"
  adopted :: "string option"
  logs :: "string \<Rightarrow> u8 list"

definition listener_start :: listener where
  "listener_start = \<lparr>watched = {}, threads = [], todo = [], adopted = None, logs = (\<lambda>_. [])\<rparr>"

text \<open>The section under the lock in \<open>main\<close>, for the node \<open>path\<close>.\<close>

definition look :: "string \<Rightarrow> listener \<Rightarrow> listener" where
  "look path s =
     (if path \<in> watched s then s
      else s\<lparr>watched := insert path (watched s), adopted := Some path\<rparr>)"

definition give_up_node :: "string \<Rightarrow> listener \<Rightarrow> listener" where
  "give_up_node path s = s\<lparr>watched := watched s - {path}\<rparr>"

text \<open>
  One step of one thread. A scan may find any nodes. \<open>open_ro\<close> returns, raises \<open>OSError\<close>, which \<open>watch\<close>
  catches, or, for the nodes in \<open>R\<close>, raises \<open>termios.error\<close>, which is not an \<open>OSError\<close> and ends the thread. The
  reading loop ends at the deadline or when anything in it raises \<open>OSError\<close>.
\<close>

inductive listen_step :: "string set \<Rightarrow> listener \<Rightarrow> listener \<Rightarrow> bool" for R where
  scan: "todo s = [] \<Longrightarrow> adopted s = None \<Longrightarrow> listen_step R s (s\<lparr>todo := nodes\<rparr>)"
| visit: "todo s = path # rest \<Longrightarrow> adopted s = None \<Longrightarrow> listen_step R s (look path (s\<lparr>todo := rest\<rparr>))"
| start: "adopted s = Some path \<Longrightarrow> listen_step R s (s\<lparr>adopted := None, threads := (path, Opening) # threads s\<rparr>)"
| opened: "threads s = xs @ (path, Opening) # ys \<Longrightarrow> listen_step R s (s\<lparr>threads := xs @ (path, Reading 0) # ys\<rparr>)"
| open_oserror: "threads s = xs @ (path, Opening) # ys \<Longrightarrow>
     listen_step R s (give_up_node path (s\<lparr>threads := xs @ ys\<rparr>))"
| open_termios: "threads s = xs @ (path, Opening) # ys \<Longrightarrow> path \<in> R \<Longrightarrow> listen_step R s (s\<lparr>threads := xs @ ys\<rparr>)"
| data: "threads s = xs @ (path, Reading n) # ys \<Longrightarrow> length bytes \<le> 4096 \<Longrightarrow>
     listen_step R s (s\<lparr>threads := xs @ (path, Reading (n + length bytes)) # ys,
       logs := (logs s)(path := logs s path @ bytes)\<rparr>)"
| loop_ends: "threads s = xs @ (path, Reading n) # ys \<Longrightarrow> listen_step R s (s\<lparr>threads := xs @ (path, Closing) # ys\<rparr>)"
| closed: "threads s = xs @ (path, Closing) # ys \<Longrightarrow> listen_step R s (give_up_node path (s\<lparr>threads := xs @ ys\<rparr>))"

inductive listen_reachable :: "string set \<Rightarrow> listener \<Rightarrow> bool" for R where
  init: "listen_reachable R listener_start"
| step: "listen_reachable R s \<Longrightarrow> listen_step R s s' \<Longrightarrow> listen_reachable R s'"

section \<open>One reader for each node\<close>

text \<open>A thread for the node is running, or about to be started.\<close>

definition attended :: "string \<Rightarrow> listener \<Rightarrow> bool" where
  "attended path s \<longleftrightarrow> adopted s = Some path \<or> path \<in> fst ` set (threads s)"

definition listen_inv :: "string set \<Rightarrow> listener \<Rightarrow> bool" where
  "listen_inv R s \<longleftrightarrow> distinct (map fst (threads s))
   \<and> (\<forall>path. adopted s = Some path \<longrightarrow> path \<notin> fst ` set (threads s))
   \<and> (\<forall>path. attended path s \<longrightarrow> path \<in> watched s)
   \<and> (\<forall>path. path \<in> watched s \<and> path \<notin> R \<longrightarrow> attended path s)"

lemmas listen_defs = listen_inv_def attended_def look_def give_up_node_def

lemma listen_step_inv:
  assumes "listen_step R s s'" "listen_inv R s"
  shows "listen_inv R s'"
  using assms by (cases rule: listen_step.cases) (auto simp: listen_defs image_iff split: if_splits)

lemma listen_reachable_inv:
  assumes "listen_reachable R s"
  shows "listen_inv R s"
  using assms
proof induction
  case init
  show ?case by (simp add: listen_defs listener_start_def)
next
  case (step s s')
  then show ?case by (blast intro: listen_step_inv)
qed

text \<open>
  C37: No node is ever read by two threads, however the threads are scheduled and the nodes come and go; and
  unless opening it has raised \<open>termios.error\<close>, a node is in \<open>watched\<close> exactly as long as a thread attends to it, so
  the next scan that finds a node given up takes it up again, and no scan takes up a node that is being read.
\<close>

theorem one_reader_per_node:
  assumes "listen_reachable R s" "path \<notin> R"
  shows "distinct (map fst (threads s)) \<and> (path \<in> watched s \<longleftrightarrow> attended path s)
    \<and> (adopted s = None \<longrightarrow> (adopted (look path s) = Some path \<longleftrightarrow> path \<notin> fst ` set (threads s)))"
  using listen_reachable_inv [OF assms(1)] assms(2) by (auto simp: listen_defs)

section \<open>A node that is lost\<close>

definition abandoned :: "string \<Rightarrow> listener \<Rightarrow> bool" where
  "abandoned path s \<longleftrightarrow> path \<in> watched s \<and> \<not> attended path s"

lemma abandoned_step:
  assumes "listen_step R s s'" "abandoned path s"
  shows "abandoned path s'"
  using assms by (cases rule: listen_step.cases) (auto simp: abandoned_def listen_defs split: if_splits)

lemma abandoned_for_ever:
  assumes "(listen_step R)\<^sup>*\<^sup>* s s'" "abandoned path s"
  shows "abandoned path s'"
  using assms by (induction rule: rtranclp_induct) (blast intro: abandoned_step)+

text \<open>
  C38: When the terminal settings of a node that is just disappearing cannot be read, \<open>termios.error\<close> ends
  its thread with the node still in \<open>watched\<close>: however long the listener runs and however often the node
  comes back, it is never read again.
\<close>

theorem termios_error_loses_node:
  assumes "listen_reachable R s" "threads s = xs @ (path, Opening) # ys" "path \<in> R"
  shows "\<exists>s'. listen_step R s s' \<and>
    (\<forall>s''. (listen_step R)\<^sup>*\<^sup>* s' s'' \<longrightarrow> path \<in> watched s'' \<and> path \<notin> fst ` set (threads s'') \<and> look path s'' = s'')"
proof -
  let ?s = "s\<lparr>threads := xs @ ys\<rparr>"
  have "abandoned path ?s"
    using listen_reachable_inv [OF assms(1)] assms(2) by (auto simp: abandoned_def listen_defs)
  then have "(listen_step R)\<^sup>*\<^sup>* ?s s'' \<Longrightarrow> abandoned path s''" for s'' by (rule abandoned_for_ever [rotated])
  moreover have "listen_step R s ?s" by (rule open_termios [OF assms(2,3)])
  ultimately show ?thesis
    by (intro exI [of _ ?s]) (auto simp: abandoned_def attended_def look_def)
qed

section \<open>Witnesses\<close>

text \<open>One node, found by the first scan, in the hands of a thread that is about to open it.\<close>

definition opening_state :: listener where
  "opening_state = \<lparr>watched = {''ttyUSB1''}, threads = [(''ttyUSB1'', Opening)], todo = [], adopted = None,
     logs = (\<lambda>_. [])\<rparr>"

lemma opening_reachable: "listen_reachable R opening_state"
proof -
  let ?s1 = "listener_start\<lparr>todo := [''ttyUSB1'']\<rparr>"
  let ?s2 = "look ''ttyUSB1'' (?s1\<lparr>todo := []\<rparr>)"
  have "listen_reachable R ?s1"
    by (rule listen_reachable.step [OF listen_reachable.init]) (rule scan; simp add: listener_start_def)
  moreover have "listen_step R ?s1 ?s2" by (rule visit) (simp_all add: listener_start_def)
  ultimately have "listen_reachable R ?s2" by (rule listen_reachable.step)
  moreover have "listen_step R ?s2 (?s2\<lparr>adopted := None, threads := (''ttyUSB1'', Opening) # threads ?s2\<rparr>)"
    by (rule start) (simp add: listener_start_def look_def)
  moreover have "?s2\<lparr>adopted := None, threads := (''ttyUSB1'', Opening) # threads ?s2\<rparr> = opening_state"
    by (simp add: listener_start_def look_def opening_state_def)
  ultimately show ?thesis by (metis listen_reachable.step)
qed

theorem one_reader_per_node_witness:
  "attended ''ttyUSB1'' opening_state \<and> ''ttyUSB3'' \<notin> watched opening_state
   \<and> adopted (look ''ttyUSB3'' opening_state) = Some ''ttyUSB3''"
  using one_reader_per_node [OF opening_reachable [of "{}"], of "''ttyUSB1''"]
    one_reader_per_node [OF opening_reachable [of "{}"], of "''ttyUSB3''"]
  by (simp add: opening_state_def attended_def)

theorem termios_error_loses_node_witness:
  "\<exists>s'. listen_step {''ttyUSB1''} opening_state s' \<and> ''ttyUSB1'' \<in> watched s' \<and> ''ttyUSB1'' \<notin> fst ` set (threads s')"
  using termios_error_loses_node [OF opening_reachable [of "{''ttyUSB1''}"], of "[]" "''ttyUSB1''" "[]"]
  by (fastforce simp: opening_state_def)

end
