(* ===== verification/DiskPool.thy ===== *)
theory DiskPool
  imports Blkdev
begin

text \<open>
  The disk as the kernel above the driver sees it: a pool of buffers, laid out as the port's
  \<open>struct buf\<close> lays out the buffer cache, and any sequence of block reads, block writes and changes of
  a buffer by the kernel. The abstract specification is a map from block numbers to contents and a
  list of buffer contents; the driver on the documented device refines it, panics included, as long as
  the 32-bit arithmetic of the range check does not wrap and the device has a store.
\<close>

section \<open>The specification\<close>

text \<open>
  \<open>Fetch i n\<close> and \<open>Put i n\<close>: block \<open>n\<close> is read into or written from buffer \<open>i\<close>; \<open>Modify i xs\<close>: the
  kernel stores \<open>xs\<close> in the buffer.
\<close>

datatype disk_op = Fetch nat u32 | Put nat u32 | Modify nat "u8 list"

type_synonym disk_state = "(u32 \<Rightarrow> u8 list) \<times> u8 list list"

fun spec_step :: "(u32 \<Rightarrow> bool) \<Rightarrow> disk_op \<Rightarrow> disk_state \<Rightarrow> string + disk_state" where
  "spec_step inside (Fetch i n) (B, M) =
     (if inside n then Inr (B, M[i := B n]) else Inl ''blkdev_rw: out of range'')"
| "spec_step inside (Put i n) (B, M) =
     (if inside n then Inr (B(n := M ! i), M) else Inl ''blkdev_rw: out of range'')"
| "spec_step inside (Modify i xs) (B, M) = Inr (B, M[i := xs])"

fun spec_run :: "(u32 \<Rightarrow> bool) \<Rightarrow> disk_op list \<Rightarrow> disk_state \<Rightarrow> string + disk_state" where
  "spec_run inside [] s = Inr s"
| "spec_run inside (p # ps) s =
     (case spec_step inside p s of Inl e \<Rightarrow> Inl e | Inr s \<Rightarrow> spec_run inside ps s)"

section \<open>The same operations through a driver\<close>

fun pool_step :: "(buf \<Rightarrow> int \<Rightarrow> 'k \<Rightarrow> (string + buf \<times> 'k) option) \<Rightarrow> (u64 \<Rightarrow> u8 list \<Rightarrow> 'k \<Rightarrow> 'k) \<Rightarrow>
    disk_op \<Rightarrow> buf list \<times> 'k \<Rightarrow> (string + buf list \<times> 'k) option" where
  "pool_step rw fill (Fetch i n) (bs, k) =
     map_option (map_sum id (\<lambda>(b, k). (bs[i := b], k))) (rw ((bs ! i)\<lparr>blockno := n\<rparr>) 0 k)"
| "pool_step rw fill (Put i n) (bs, k) =
     map_option (map_sum id (\<lambda>(b, k). (bs[i := b], k))) (rw ((bs ! i)\<lparr>blockno := n\<rparr>) 1 k)"
| "pool_step rw fill (Modify i xs) (bs, k) = Some (Inr (bs, fill (data (bs ! i)) xs k))"

fun pool_run :: "(buf \<Rightarrow> int \<Rightarrow> 'k \<Rightarrow> (string + buf \<times> 'k) option) \<Rightarrow> (u64 \<Rightarrow> u8 list \<Rightarrow> 'k \<Rightarrow> 'k) \<Rightarrow>
    disk_op list \<Rightarrow> buf list \<times> 'k \<Rightarrow> (string + buf list \<times> 'k) option" where
  "pool_run rw fill [] s = Some (Inr s)"
| "pool_run rw fill (p # ps) s =
     (case pool_step rw fill p s of
        None \<Rightarrow> None
      | Some (Inl e) \<Rightarrow> Some (Inl e)
      | Some (Inr s) \<Rightarrow> pool_run rw fill ps s)"

definition pool_abs :: "('k \<Rightarrow> u32 \<Rightarrow> u8 list) \<Rightarrow> ('k \<Rightarrow> u64 \<Rightarrow> u8 list) \<Rightarrow> buf list \<times> 'k \<Rightarrow> disk_state" where
  "pool_abs blocks bytes = (\<lambda>(bs, k). (blocks k, map (\<lambda>b. bytes k (data b)) bs))"

text \<open>The operation names a buffer of the pool, a block number the driver can compute with, a full block.\<close>

fun op_ok :: "(u64 \<Rightarrow> u32 \<Rightarrow> bool) \<Rightarrow> (u8 list \<Rightarrow> bool) \<Rightarrow> u64 list \<Rightarrow> disk_op \<Rightarrow> bool" where
  "op_ok legal full places (Fetch i n) \<longleftrightarrow> i < length places \<and> legal (places ! i) n"
| "op_ok legal full places (Put i n) \<longleftrightarrow> i < length places \<and> legal (places ! i) n"
| "op_ok legal full places (Modify i xs) \<longleftrightarrow> i < length places \<and> full xs"

definition all_apart :: "(u64 \<Rightarrow> u64 \<Rightarrow> bool) \<Rightarrow> u64 list \<Rightarrow> bool" where
  "all_apart apart places \<longleftrightarrow>
     (\<forall>i < length places. \<forall>j < length places. i \<noteq> j \<longrightarrow> apart (places ! i) (places ! j))"

lemma all_apartD:
  assumes "all_apart apart (map data bs)" "i < length bs" "j < length bs" "i \<noteq> j"
  shows "apart (data (bs ! i)) (data (bs ! j))"
  using assms by (auto simp: all_apart_def)

text \<open>Writing one buffer of the pool changes its entry and no other.\<close>

lemma map_bytes_update:
  assumes "i < length bs" "f (data (bs ! i)) = xs"
    and "\<And>j. j < length bs \<Longrightarrow> j \<noteq> i \<Longrightarrow> f (data (bs ! j)) = g (data (bs ! j))"
  shows "map (\<lambda>b. f (data b)) bs = (map (\<lambda>b. g (data b)) bs)[i := xs]"
  using assms by (intro nth_equalityI) (auto simp: nth_list_update)

lemma map_data_update:
  assumes "i < length bs" "data b = data (bs ! i)"
  shows "map data (bs[i := b]) = map data bs" "map (\<lambda>b. f (data b)) (bs[i := b]) = map (\<lambda>b. f (data b)) bs"
  using assms by (auto intro!: nth_equalityI simp: nth_list_update)

locale disk_pool = disk_driver rw able blocks bytes
  for rw :: "buf \<Rightarrow> int \<Rightarrow> 'k \<Rightarrow> (string + buf \<times> 'k) option" and able blocks bytes +
  fixes legal :: "'k \<Rightarrow> u64 \<Rightarrow> u32 \<Rightarrow> bool" and inside :: "'k \<Rightarrow> u32 \<Rightarrow> bool"
    and fill :: "u64 \<Rightarrow> u8 list \<Rightarrow> 'k \<Rightarrow> 'k" and full :: "u8 list \<Rightarrow> bool"
    and apart :: "u64 \<Rightarrow> u64 \<Rightarrow> bool"
  assumes accepts: "legal k (data b) (blockno b) \<Longrightarrow> inside k (blockno b) \<Longrightarrow> able k b"
    and refuses: "legal k (data b) (blockno b) \<Longrightarrow> \<not> inside k (blockno b) \<Longrightarrow>
      rw b w k = Some (Inl ''blkdev_rw: out of range'')"
    and rw_keeps: "able k b \<Longrightarrow> rw b w k = Some (Inr (b', k')) \<Longrightarrow> legal k' = legal k \<and> inside k' = inside k"
    and read_apart: "able k b \<Longrightarrow> apart (data b) a \<Longrightarrow> rw b 0 k = Some (Inr (b', k')) \<Longrightarrow> bytes k' a = bytes k a"
    and fill_keeps: "legal (fill a xs k) = legal k" "inside (fill a xs k) = inside k" "blocks (fill a xs k) = blocks k"
    and fill_same: "full xs \<Longrightarrow> bytes (fill a xs k) a = xs"
    and fill_apart: "full xs \<Longrightarrow> apart a c \<Longrightarrow> bytes (fill a xs k) c = bytes k c"
begin

text \<open>One operation: the abstraction of its outcome is the outcome on the abstraction.\<close>

lemma step_refines:
  assumes ok: "op_ok (legal k) full (map data bs) p" and ap: "all_apart apart (map data bs)"
  shows "\<exists>r. pool_step rw fill p (bs, k) = Some r
    \<and> map_sum id (pool_abs blocks bytes) r = spec_step (inside k) p (pool_abs blocks bytes (bs, k))
    \<and> (\<forall>bs' k'. r = Inr (bs', k') \<longrightarrow>
         map data bs' = map data bs \<and> legal k' = legal k \<and> inside k' = inside k)"
proof (cases p)
  case (Fetch i n)
  let ?b = "(bs ! i)\<lparr>blockno := n\<rparr>"
  have i: "i < length bs" and l: "legal k (data ?b) (blockno ?b)" using ok Fetch by auto
  show ?thesis
  proof (cases "inside k n")
    case True
    then have able: "able k ?b" using accepts [OF l] by simp
    from rw_read [OF this] obtain k' where k': "rw ?b 0 k = Some (Inr (?b\<lparr>disk := 0\<rparr>, k'))"
      "bytes k' (data (bs ! i)) = blocks k n" "blocks k' = blocks k" by auto
    have "map (\<lambda>b. bytes k' (data b)) bs = (map (\<lambda>b. bytes k (data b)) bs)[i := blocks k n]"
      by (rule map_bytes_update [where f = "bytes k'", OF i k'(2)])
         (use read_apart [OF able _ k'(1)] all_apartD [OF ap i] in auto)
    with k' rw_keeps [OF able k'(1)] True i show ?thesis
      by (simp add: Fetch pool_abs_def map_data_update)
  next
    case False
    with refuses [OF l, of 0] show ?thesis by (simp add: Fetch pool_abs_def)
  qed
next
  case (Put i n)
  let ?b = "(bs ! i)\<lparr>blockno := n\<rparr>"
  have i: "i < length bs" and l: "legal k (data ?b) (blockno ?b)" using ok Put by auto
  show ?thesis
  proof (cases "inside k n")
    case True
    then have able: "able k ?b" using accepts [OF l] by simp
    from rw_write [OF this] obtain k' where k': "rw ?b 1 k = Some (Inr (?b\<lparr>disk := 0\<rparr>, k'))"
      "bytes k' = bytes k" "blocks k' = (blocks k)(n := bytes k (data (bs ! i)))" by auto
    with rw_keeps [OF able k'(1)] True i show ?thesis
      by (simp add: Put pool_abs_def map_data_update)
  next
    case False
    with refuses [OF l, of 1] show ?thesis by (simp add: Put pool_abs_def)
  qed
next
  case (Modify i xs)
  have i: "i < length bs" and f: "full xs" using ok Modify by auto
  have "map (\<lambda>b. bytes (fill (data (bs ! i)) xs k) (data b)) bs = (map (\<lambda>b. bytes k (data b)) bs)[i := xs]"
    by (rule map_bytes_update [where f = "bytes (fill (data (bs ! i)) xs k)", OF i fill_same [OF f]])
       (use fill_apart [OF f] all_apartD [OF ap i] in auto)
  then show ?thesis by (simp add: Modify pool_abs_def fill_keeps)
qed

lemma run_refines:
  assumes "list_all (op_ok (legal k) full (map data bs)) ps" "all_apart apart (map data bs)"
  shows "map_option (map_sum id (pool_abs blocks bytes)) (pool_run rw fill ps (bs, k)) =
    Some (spec_run (inside k) ps (pool_abs blocks bytes (bs, k)))"
  using assms
proof (induction ps arbitrary: bs k)
  case Nil
  then show ?case by simp
next
  case (Cons p ps)
  then obtain r where r: "pool_step rw fill p (bs, k) = Some r"
    "spec_step (inside k) p (pool_abs blocks bytes (bs, k)) = map_sum id (pool_abs blocks bytes) r"
    and keep: "\<And>bs' k'. r = Inr (bs', k') \<Longrightarrow>
      map data bs' = map data bs \<and> legal k' = legal k \<and> inside k' = inside k"
    using step_refines [of k bs p] by auto
  show ?case
  proof (cases r)
    case (Inl e)
    with r show ?thesis by simp
  next
    case (Inr s)
    obtain bs' k' where s: "s = (bs', k')" by fastforce
    with Inr keep have *: "map data bs' = map data bs" "legal k' = legal k" "inside k' = inside k" by auto
    have "map_option (map_sum id (pool_abs blocks bytes)) (pool_run rw fill ps (bs', k')) =
        Some (spec_run (inside k') ps (pool_abs blocks bytes (bs', k')))"
      by (rule Cons.IH) (use Cons.prems * in simp_all)
    with r Inr s * show ?thesis by (auto simp: id_def)
  qed
qed

end

section \<open>The port's driver and buffers\<close>

text \<open>The kernel stores \<open>xs\<close> at \<open>a\<close>.\<close>

definition fill_ram :: "u64 \<Rightarrow> u8 list \<Rightarrow> bdev kernel \<Rightarrow> bdev kernel" where
  "fill_ram a xs k = k\<lparr>device := (device k)\<lparr>ram :=
     (\<lambda>x. if unat (x - a) < length xs then xs ! unat (x - a) else ram (device k) x)\<rparr>\<rparr>"

text \<open>No byte of the region of \<open>n\<close> bytes at \<open>c\<close> is one of the region at \<open>a\<close>.\<close>

definition buffers_apart :: "nat \<Rightarrow> u64 \<Rightarrow> u64 \<Rightarrow> bool" where
  "buffers_apart n a c \<longleftrightarrow> (\<forall>i < n. n \<le> unat (c + of_nat i - a))"

definition rw_legal :: "nat \<Rightarrow> bdev kernel \<Rightarrow> u64 \<Rightarrow> u32 \<Rightarrow> bool" where
  "rw_legal bsize k a n \<longleftrightarrow> bdev_idle (device k) \<and> block_size bsize \<and> blkdev_nsectors k \<noteq> 0
     \<and> a mod 64 = 0 \<and> (unat n + 1) * (bsize div 512) < 2 ^ 32"

lemma ram_bytes_cong:
  "(\<And>i. i < n \<Longrightarrow> mem' (a + of_nat i) = mem (a + of_nat i)) \<Longrightarrow> ram_bytes n mem' a = ram_bytes n mem a"
  by (simp add: ram_bytes_def)

interpretation pool: disk_pool "blkdev_rw (bdev_ops un) bsize" "rw_able bsize"
    "\<lambda>k n. file_block bsize (store (device k)) (unat n)" "\<lambda>k. ram_bytes bsize (ram (device k))"
    "rw_legal bsize" "\<lambda>k. block_in_range bsize (blkdev_nsectors k)" fill_ram
    "\<lambda>xs. length xs = bsize \<and> bsize < 2 ^ 64" "buffers_apart bsize"
  for un bsize
proof (unfold_locales, goal_cases)
  case (1 k b)
  then show ?case by (simp add: rw_legal_def rw_able_def)
next
  case (2 k b w)
  then show ?case
    using range_check_exact [of k bsize b un w] by (simp add: rw_legal_def)
next
  case (3 k b w b' k')
  then have b: "bdev_idle (device k)" "block_in_range bsize (blkdev_nsectors k) (blockno b)" "block_size bsize"
    by (simp_all add: rw_able_def)
  from blkdev_rw_in_range [OF b, of un w] 3 show ?case
    using b(1) by (auto simp: rw_legal_def fun_eq_iff)
next
  case (4 k b a b' k')
  then have b: "bdev_idle (device k)" "block_in_range bsize (blkdev_nsectors k) (blockno b)"
      "block_size bsize" "data b mod 64 = 0"
    by (simp_all add: rw_able_def)
  from rw_reads_block [OF b, of un] 4(3)
  have "\<forall>x. bsize \<le> unat (x - data b) \<longrightarrow> ram (device k') x = ram (device k) x" by auto
  with 4(2) show ?case by (intro ram_bytes_cong) (simp add: buffers_apart_def)
next
  case (5 a xs k)
  then show ?case by (simp add: fill_ram_def rw_legal_def bdev_idle_def fun_eq_iff)
next
  case (6 a xs k)
  then show ?case by (simp add: fill_ram_def)
next
  case (7 a xs k)
  then show ?case by (simp add: fill_ram_def)
next
  case (8 xs a k)
  then show ?case
    by (intro nth_equalityI) (auto simp: ram_bytes_def fill_ram_def unat_of_nat)
next
  case (9 xs a c k)
  then show ?case by (intro ram_bytes_cong) (auto simp: buffers_apart_def fill_ram_def not_less)
qed

lemma round_up_le: "n \<le> round_up n"
proof -
  have "n + 63 = (n + 63) div 64 * 64 + (n + 63) mod 64" by simp
  moreover have "(n + 63) mod 64 < 64" by simp
  ultimately show ?thesis unfolding round_up_def by linarith
qed

text \<open>The buffer cache: consecutive \<open>struct buf\<close>, none across the end of the address space.\<close>

lemma unat_u64_of_nat: "n < 2 ^ 64 \<Longrightarrow> unat (of_nat n :: u64) = n"
  by (simp add: unat_of_nat)

lemma word_forward:
  assumes "j = i + Suc d"
  shows "(of_nat (j * S) + of_nat t - of_nat (i * S) :: u64) = of_nat (Suc d * S + t)"
  using assms by (simp add: algebra_simps)

lemma word_backward:
  assumes "i = j + Suc d" "t \<le> Suc d * S" "Suc d * S - t \<le> 2 ^ 64"
  shows "(of_nat (j * S) + of_nat t - of_nat (i * S) :: u64) = of_nat (2 ^ 64 - (Suc d * S - t))"
proof -
  have "(of_nat (2 ^ 64 - (Suc d * S - t)) :: u64) = of_nat (2 ^ 64) - of_nat (Suc d * S - t)"
    using assms(3) by (rule of_nat_diff)
  also have "(of_nat (2 ^ 64) :: u64) = 0" by simp
  also have "(of_nat (Suc d * S - t) :: u64) = of_nat (Suc d * S) - of_nat t"
    using assms(2) by (rule of_nat_diff)
  finally show ?thesis using assms(1) by (simp add: algebra_simps)
qed

lemma far_in_address_space:
  assumes n: "nbuf * S < 2 ^ 64" and ij: "i < nbuf" "j < nbuf" "i \<noteq> j" and t: "t < bsize" "bsize \<le> S"
  shows "bsize \<le> unat (of_nat (j * S) + of_nat t - of_nat (i * S) :: u64)"
proof (cases "i < j")
  case True
  then obtain d where d: "j = i + Suc d" by (auto dest: less_imp_Suc_add)
  then have "(Suc d + 1) * S \<le> nbuf * S" using ij by (intro mult_le_mono1) simp
  then have "Suc d * S + S < 2 ^ 64" using n unfolding add_mult_distrib by linarith
  then have "Suc d * S + t < 2 ^ 64" using t by linarith
  then have "unat (of_nat (Suc d * S + t) :: u64) = Suc d * S + t" by (rule unat_u64_of_nat)
  then show ?thesis unfolding word_forward [OF d] using t(2) by simp
next
  case False
  with ij(3) obtain d where d: "i = j + Suc d" by (metis less_imp_Suc_add linorder_neqE_nat add_Suc_right)
  then have "(Suc d + 1) * S \<le> nbuf * S" using ij by (intro mult_le_mono1) simp
  then have le: "Suc d * S + S < 2 ^ 64" using n unfolding add_mult_distrib by linarith
  have tS: "t < Suc d * S" using t by (simp add: trans_less_add1)
  let ?n = "2 ^ 64 - (Suc d * S - t)"
  have "?n < 2 ^ 64" "bsize \<le> ?n" "Suc d * S - t \<le> 2 ^ 64" using le tS t by linarith+
  then show ?thesis
    unfolding word_backward [OF d less_imp_le [OF tS] \<open>Suc d * S - t \<le> 2 ^ 64\<close>]
    by (subst unat_u64_of_nat) simp_all
qed

lemma buf_apart:
  assumes "nbuf * round_up (round_up hdr + bsize) < 2 ^ 64" and "i < nbuf" "j < nbuf" "i \<noteq> j"
  shows "buffers_apart bsize (buf_data base hdr bsize i) (buf_data base hdr bsize j)"
  unfolding buffers_apart_def
proof (intro allI impI)
  fix t assume t: "t < bsize"
  let ?S = "round_up (round_up hdr + bsize)"
  have "bsize \<le> ?S" using round_up_le [of "round_up hdr + bsize"] by linarith
  moreover have "buf_data base hdr bsize j + of_nat t - buf_data base hdr bsize i =
      of_nat (j * ?S) + of_nat t - of_nat (i * ?S)"
    unfolding buf_data_def of_nat_add by simp
  ultimately show "bsize \<le> unat (buf_data base hdr bsize j + of_nat t - buf_data base hdr bsize i)"
    using far_in_address_space [OF assms t] by (simp only:)
qed
section \<open>Refinement\<close>

definition disk_abs :: "nat \<Rightarrow> buf list \<times> bdev kernel \<Rightarrow> disk_state" where
  "disk_abs bsize = pool_abs (\<lambda>k n. file_block bsize (store (device k)) (unat n))
     (\<lambda>k. ram_bytes bsize (ram (device k)))"

fun in_pool :: "nat \<Rightarrow> nat \<Rightarrow> disk_op \<Rightarrow> bool" where
  "in_pool bsize nbuf (Fetch i n) \<longleftrightarrow> i < nbuf \<and> (unat n + 1) * (bsize div 512) < 2 ^ 32"
| "in_pool bsize nbuf (Put i n) \<longleftrightarrow> i < nbuf \<and> (unat n + 1) * (bsize div 512) < 2 ^ 32"
| "in_pool bsize nbuf (Modify i xs) \<longleftrightarrow> i < nbuf \<and> length xs = bsize"

lemma buffer_fits: "i < nbuf \<Longrightarrow> nbuf * round_up (round_up hdr + bsize) < 2 ^ 64 \<Longrightarrow> bsize < 2 ^ 64"
proof -
  assume "i < nbuf" and n: "nbuf * round_up (round_up hdr + bsize) < 2 ^ 64"
  then have "1 * round_up (round_up hdr + bsize) \<le> nbuf * round_up (round_up hdr + bsize)"
    by (intro mult_le_mono1) simp
  with n round_up_le [of "round_up hdr + bsize"] show ?thesis by linarith
qed

lemma cache_run_refines:
  assumes k: "bdev_idle (device k)" "blkdev_nsectors k \<noteq> 0" "block_size bsize"
    and base: "base mod 64 = 0" and layout: "map data bs = map (buf_data base hdr bsize) [0..<length bs]"
    and fits: "length bs * round_up (round_up hdr + bsize) < 2 ^ 64"
    and ps: "list_all (in_pool bsize (length bs)) ps"
  shows "map_option (map_sum id (disk_abs bsize)) (pool_run (blkdev_rw (bdev_ops un) bsize) fill_ram ps (bs, k)) =
    Some (spec_run (block_in_range bsize (blkdev_nsectors k)) ps (disk_abs bsize (bs, k)))"
  unfolding disk_abs_def
proof (rule pool.run_refines)
  have at: "data (bs ! i) = buf_data base hdr bsize i" if "i < length bs" for i
    using arg_cong [OF layout, of "\<lambda>xs. xs ! i"] that by simp
  have "op_ok (rw_legal bsize k) (\<lambda>xs. length xs = bsize \<and> bsize < 2 ^ 64) (map data bs) p"
    if "in_pool bsize (length bs) p" for p
    using that k buffers_aligned [OF base] buffer_fits [OF _ fits]
    by (cases p) (auto simp: rw_legal_def at)
  then show "list_all (op_ok (rw_legal bsize k) (\<lambda>xs. length xs = bsize \<and> bsize < 2 ^ 64) (map data bs)) ps"
    using ps by (simp add: list_all_iff)
  show "all_apart (buffers_apart bsize) (map data bs)"
    unfolding all_apart_def using buf_apart [OF fits] by (simp add: at)
qed

text \<open>
  C2: The disk refines a map of blocks, for the block numbers whose end, counted in sectors, fits in 32 bits
  (for larger ones the range check wraps around, see \<open>Blkdev\<close>). After
  \<open>blkdev_init\<close> on any device that reports a nonzero number of sectors and has no request under way, every sequence of
  reads and writes of such blocks and of changes of buffers, over the port's buffer cache, terminates
  with what the same sequence does to an abstract store of blocks and buffers: each read brings the block
  last written, no write touches another block, no transfer another buffer, and the run stops with
  the driver's panic exactly at the first of these blocks that is not wholly inside the store. This holds
  for any latency of the device.
\<close>

theorem disk_refines_block_map:
  assumes "running (device k) = []" "free (device k) @ finished (device k) \<noteq> []" "\<not> misused (device k)"
    and "length (free (device k)) + length (finished (device k)) < 256" "nsectors (device k) \<noteq> 0"
    and "block_size bsize" "base mod 64 = 0" "map data bs = map (buf_data base hdr bsize) [0..<length bs]"
    and "length bs * round_up (round_up hdr + bsize) < 2 ^ 64" "list_all (in_pool bsize (length bs)) ps"
  shows "\<exists>k1. blkdev_init (bdev_ops un) k = Some k1
    \<and> map_option (map_sum id (disk_abs bsize)) (pool_run (blkdev_rw (bdev_ops un) bsize) fill_ram ps (bs, k1)) =
        Some (spec_run (block_in_range bsize (nsectors (device k))) ps (disk_abs bsize (bs, k)))"
proof -
  obtain k1 where k1: "blkdev_init (bdev_ops un) k = Some k1" "bdev_idle (device k1)"
    "blkdev_nsectors k1 = nsectors (device k)" "ram (device k1) = ram (device k)"
    "store (device k1) = store (device k)"
    using init_drains [OF assms(1-4), of un] by blast
  then have "disk_abs bsize (bs, k1) = disk_abs bsize (bs, k)" by (simp add: disk_abs_def pool_abs_def)
  with k1(1,3) cache_run_refines [OF k1(2) _ assms(6-10), of un] assms(5) show ?thesis by simp
qed

lemma returns_iff:
  "map_option (map_sum id f) r = Some (Inr y) \<longleftrightarrow> (\<exists>s. r = Some (Inr s) \<and> f s = y)"
  by (cases r) (auto simp: map_sum_def split: sum.splits)

text \<open>Two buffers: one is written to a block and then overwritten, the other reads the block back.\<close>

theorem disk_refines_block_map_witness:
  "\<exists>k1 s. blkdev_init (bdev_ops (\<lambda>_ _. id)) \<lparr>device = sample_device, blkdev_nsectors = 0, kcalls = []\<rparr> = Some k1
    \<and> pool_run (blkdev_rw (bdev_ops (\<lambda>_ _. id)) 1024) fill_ram
        [Modify 0 (replicate 1024 7), Put 0 3, Modify 0 (replicate 1024 9), Fetch 1 3]
        (map (\<lambda>i. sample_buf\<lparr>data := buf_data 0x80010040 88 1024 i\<rparr>) [0, 1], k1) = Some (Inr s)
    \<and> snd (disk_abs 1024 s) = [replicate 1024 9, replicate 1024 7]"
proof -
  let ?bs = "map (\<lambda>i. sample_buf\<lparr>data := buf_data 0x80010040 88 1024 i\<rparr>) [0, 1]"
  let ?ps = "[Modify 0 (replicate 1024 7), Put 0 3, Modify 0 (replicate 1024 9), Fetch 1 3]"
  let ?k = "\<lparr>device = sample_device, blkdev_nsectors = 0, kcalls = []\<rparr>"
  have "spec_run (block_in_range 1024 4000) ?ps (disk_abs 1024 (?bs, ?k)) =
      Inr ((fst (disk_abs 1024 (?bs, ?k)))(3 := replicate 1024 7), [replicate 1024 9, replicate 1024 7])"
    by (simp add: disk_abs_def pool_abs_def block_in_range_def)
  then have spec: "spec_run (block_in_range 1024 (nsectors (device ?k))) ?ps (disk_abs 1024 (?bs, ?k)) =
      Inr ((fst (disk_abs 1024 (?bs, ?k)))(3 := replicate 1024 7), [replicate 1024 9, replicate 1024 7])"
    by (simp add: sample_device_def)
  have "\<exists>k1. blkdev_init (bdev_ops (\<lambda>_ _. id)) ?k = Some k1
    \<and> map_option (map_sum id (disk_abs 1024)) (pool_run (blkdev_rw (bdev_ops (\<lambda>_ _. id)) 1024) fill_ram ?ps (?bs, k1)) =
        Some (spec_run (block_in_range 1024 (nsectors (device ?k))) ?ps (disk_abs 1024 (?bs, ?k)))"
    by (rule disk_refines_block_map [where base = "0x80010040" and hdr = 88])
       (simp_all add: sample_device_def block_size_def round_up_def)
  then obtain k1 where k1: "blkdev_init (bdev_ops (\<lambda>_ _. id)) ?k = Some k1"
    and run: "map_option (map_sum id (disk_abs 1024))
        (pool_run (blkdev_rw (bdev_ops (\<lambda>_ _. id)) 1024) fill_ram ?ps (?bs, k1)) =
      Some (Inr ((fst (disk_abs 1024 (?bs, ?k)))(3 := replicate 1024 7), [replicate 1024 9, replicate 1024 7]))"
    unfolding spec by blast
  from run obtain s where "pool_run (blkdev_rw (bdev_ops (\<lambda>_ _. id)) 1024) fill_ram ?ps (?bs, k1) = Some (Inr s)"
    "disk_abs 1024 s = ((fst (disk_abs 1024 (?bs, ?k)))(3 := replicate 1024 7), [replicate 1024 9, replicate 1024 7])"
    unfolding returns_iff by blast
  with k1 show ?thesis by (intro exI [of _ k1] exI [of _ s]) (simp only: snd_conv)
qed

end
