(* ===== verification/ConsoleTrace.thy ===== *)
theory ConsoleTrace
  imports Htif
begin

text \<open>
  The console driver as a whole: any sequence of its three entry points, from boot, against the
  abstract console of which a program sees two streams, the characters shown and the characters still
  to be read. Between them is the line discipline, any that keeps to the driver's output (\<open>obeys\<close>),
  with its state. The host's turns are inside the calls; its pace is arbitrary.
\<close>

section \<open>The abstract console\<close>

datatype console_op = Putc u32 | Write "nat \<Rightarrow> u8" int | Tick

text \<open>
  \<open>line\<close>: the state of the line discipline; \<open>reading\<close>: a read command is outstanding; \<open>prompt\<close>: the host
  has used up its pauses and the user types no more.
\<close>

record 'w console =
  line :: 'w
  shown :: "u8 list"
  pending :: "u8 list"
  reading :: bool
  prompt :: bool

text \<open>
  A tick hands some of the pending characters to the line discipline, the first ones in order, and
  shows what it makes of them; with a prompt host and a read command waiting it is at least one.
\<close>

fun console_spec :: "('w \<Rightarrow> u8 \<Rightarrow> 'w \<times> u8 list) \<Rightarrow> console_op \<Rightarrow> 'w console \<Rightarrow> 'w console \<Rightarrow> bool" where
  "console_spec cook (Putc c) s s' \<longleftrightarrow>
     shown s' = shown s @ [ucast c] \<and> line s' = line s \<and> pending s' = pending s \<and> reading s' = reading s
     \<and> (prompt s \<longrightarrow> prompt s')"
| "console_spec cook (Write buf n) s s' \<longleftrightarrow>
     shown s' = shown s @ map buf [0..<nat n] \<and> line s' = line s \<and> pending s' = pending s \<and> reading s' = reading s
     \<and> (prompt s \<longrightarrow> prompt s')"
| "console_spec cook Tick s s' \<longleftrightarrow>
     (\<exists>m \<le> length (pending s).
        line s' = fst (cooked cook (line s) (take m (pending s)))
        \<and> shown s' = shown s @ snd (cooked cook (line s) (take m (pending s))) \<and> pending s' = drop m (pending s)
        \<and> (prompt s \<and> reading s \<and> pending s \<noteq> [] \<longrightarrow> 0 < m))
     \<and> reading s' \<and> (prompt s \<longrightarrow> prompt s')"

inductive console_trace :: "('w \<Rightarrow> u8 \<Rightarrow> 'w \<times> u8 list) \<Rightarrow> console_op list \<Rightarrow> 'w console \<Rightarrow> 'w console \<Rightarrow> bool"
  for cook where
  no_call: "console_trace cook [] s s"
| call: "console_spec cook p s t \<Longrightarrow> console_trace cook ps t u \<Longrightarrow> console_trace cook (p # ps) s u"

text \<open>What the program writes in a sequence of calls, and how often it polls.\<close>

fun written :: "console_op list \<Rightarrow> u8 list" where
  "written [] = []"
| "written (Putc c # ps) = ucast c # written ps"
| "written (Write buf n # ps) = map buf [0..<nat n] @ written ps"
| "written (Tick # ps) = written ps"

fun polls :: "console_op list \<Rightarrow> nat" where
  "polls [] = 0"
| "polls (Tick # ps) = Suc (polls ps)"
| "polls (_ # ps) = polls ps"

lemma shuffles_append_left: "zs \<in> shuffles xs ys \<Longrightarrow> ws @ zs \<in> shuffles (ws @ xs) ys"
  by (induction ws) (auto intro: Cons_in_shuffles_leftI)

lemma shuffles_append_right: "zs \<in> shuffles xs ys \<Longrightarrow> ws @ zs \<in> shuffles xs (ws @ ys)"
  by (induction ws) (auto intro: Cons_in_shuffles_rightI)

text \<open>
  Every trace shows the written characters and what the line discipline makes of a prefix of the
  pending ones, each in its order and nothing else.
\<close>

lemma trace_shuffles:
  assumes "console_trace cook ps s u"
  shows "\<exists>m zs. pending u = drop m (pending s) \<and> line u = fst (cooked cook (line s) (take m (pending s)))
    \<and> zs \<in> shuffles (written ps) (snd (cooked cook (line s) (take m (pending s))))
    \<and> shown u = shown s @ zs"
  using assms
proof induction
  case (no_call s)
  then show ?case by (intro exI [of _ 0] exI [of _ "[]"]) simp
next
  case (call p s t ps u)
  then obtain m zs where IH: "pending u = drop m (pending t)" "line u = fst (cooked cook (line t) (take m (pending t)))"
    "zs \<in> shuffles (written ps) (snd (cooked cook (line t) (take m (pending t))))" "shown u = shown t @ zs" by blast
  show ?case
  proof (cases p)
    case (Putc c)
    with call.hyps(1) IH show ?thesis
      by (intro exI [of _ m] exI [of _ "ucast c # zs"]) (simp add: Cons_in_shuffles_leftI)
  next
    case (Write buf n)
    with call.hyps(1) IH show ?thesis
      by (intro exI [of _ m] exI [of _ "map buf [0..<nat n] @ zs"]) (simp add: shuffles_append_left)
  next
    case Tick
    with call.hyps(1) obtain j where j: "pending t = drop j (pending s)"
      "line t = fst (cooked cook (line s) (take j (pending s)))"
      "shown t = shown s @ snd (cooked cook (line s) (take j (pending s)))"
      by auto
    have "take (j + m) (pending s) = take j (pending s) @ take m (pending t)"
      by (simp add: j(1) take_add)
    with IH j Tick show ?thesis
      by (intro exI [of _ "j + m"] exI [of _ "snd (cooked cook (line s) (take j (pending s))) @ zs"])
         (simp add: cooked_append shuffles_append_right add.commute)
  qed
qed

text \<open>With a prompt host each poll after the first takes at least one pending character.\<close>

lemma trace_drains:
  assumes "console_trace cook ps s u" "prompt s"
  shows "length (pending u) \<le> length (pending s) - (if reading s then polls ps else polls ps - 1)"
  using assms
proof induction
  case (no_call s)
  then show ?case by simp
next
  case (call p s t ps u)
  show ?case
  proof (cases p)
    case Tick
    with call.hyps(1) obtain m where m: "m \<le> length (pending s)" "pending t = drop m (pending s)"
      "prompt s \<and> reading s \<and> pending s \<noteq> [] \<longrightarrow> 0 < m" "reading t" "prompt s \<longrightarrow> prompt t"
      by auto
    have "length (pending u) \<le> length (pending t) - polls ps"
      using call.IH m(4,5) call.prems by simp
    moreover have "length (pending t) \<le> length (pending s) - (if reading s then 1 else 0)"
      using m call.prems by (cases "pending s") auto
    ultimately show ?thesis using Tick by (simp split: if_splits)
  qed (use call in auto)
qed

section \<open>The driver\<close>

fun console_call :: "(u32 \<Rightarrow> 'w \<times> htif \<Rightarrow> ('w \<times> htif) option) \<Rightarrow> console_op \<Rightarrow> 'w \<times> htif \<Rightarrow> ('w \<times> htif) option" where
  "console_call ci (Putc c) s = map_option (Pair (fst s)) (uartputc_sync c (snd s))"
| "console_call ci (Write buf n) s = map_option (Pair (fst s)) (uartwrite buf n (snd s))"
| "console_call ci Tick s = uartintr ci s"

fun console_run :: "(u32 \<Rightarrow> 'w \<times> htif \<Rightarrow> ('w \<times> htif) option) \<Rightarrow> console_op list \<Rightarrow> 'w \<times> htif \<Rightarrow> ('w \<times> htif) option" where
  "console_run ci [] s = Some s"
| "console_run ci (p # ps) s = (case console_call ci p s of None \<Rightarrow> None | Some s \<Rightarrow> console_run ci ps s)"

definition console_abs :: "'w \<times> htif \<Rightarrow> 'w console" where
  "console_abs = (\<lambda>(w, h). \<lparr>line = w, shown = committed h, pending = upcoming h, reading = (read_pending h \<noteq> 0),
     prompt = (sched h = [])\<rparr>)"

context line_discipline
begin

lemma tick_refines:
  assumes "console_inv h"
  shows "\<exists>w' h'. uartintr consoleintr (w, h) = Some (w', h') \<and> console_inv h'
    \<and> console_spec cook Tick (console_abs (w, h)) (console_abs (w', h'))"
proof -
  from poll_step [OF assms, of w] obtain h' cs where
    "uartintr consoleintr (w, h) = Some (fst (cooked cook w cs), h')" "console_inv h'" "upcoming h = cs @ upcoming h'"
    "committed h' = committed h @ snd (cooked cook w cs)" "sched h = [] \<longrightarrow> sched h' = []" "read_pending h' \<noteq> 0"
    "sched h = [] \<and> read_pending h \<noteq> 0 \<and> upcoming h \<noteq> [] \<longrightarrow> cs \<noteq> []" by blast
  then show ?thesis
    by (intro exI [of _ "fst (cooked cook w cs)"] exI [of _ h'])
       (auto simp: console_abs_def intro!: exI [of _ "length cs"])
qed

lemma call_refines:
  assumes "console_inv h"
  shows "\<exists>w' h'. console_call consoleintr p (w, h) = Some (w', h') \<and> console_inv h'
    \<and> console_spec cook p (console_abs (w, h)) (console_abs (w', h'))"
proof (cases p)
  case (Putc c)
  from uartputc_emits [of h c] assms obtain h' where "uartputc_sync c h = Some h'" "well_formed h'" "tohost h' = 0"
    "out h' = committed h @ [ucast c]" "upcoming h' = upcoming h" "asked h' = asked h"
    "read_pending h' = read_pending h" "sched h = [] \<longrightarrow> sched h' = []"
    unfolding console_inv_def by blast
  with assms Putc show ?thesis by (simp add: console_inv_def console_abs_def)
next
  case (Write buf n)
  from write_inv [OF assms, of buf n] Write show ?thesis by (auto simp: console_abs_def)
next
  case Tick
  with tick_refines [OF assms] show ?thesis by simp
qed

lemma run_refines_console:
  assumes "console_inv h"
  shows "\<exists>w' h'. console_run consoleintr ps (w, h) = Some (w', h') \<and> console_inv h'
    \<and> console_trace cook ps (console_abs (w, h)) (console_abs (w', h'))"
  using assms
proof (induction ps arbitrary: w h)
  case Nil
  then show ?case by (simp add: console_trace.no_call)
next
  case (Cons p ps)
  from call_refines [OF Cons.prems, of p w] obtain w1 h1 where
    h1: "console_call consoleintr p (w, h) = Some (w1, h1)" "console_inv h1"
      "console_spec cook p (console_abs (w, h)) (console_abs (w1, h1))" by blast
  with Cons.IH [of h1 w1] show ?case by (auto intro: console_trace.call)
qed

end

text \<open>The state at boot: nothing in either word, the host at rest.\<close>

definition console_off :: "htif \<Rightarrow> bool" where
  "console_off h \<longleftrightarrow> tohost h = 0 \<and> fromhost h = 0 \<and> reads h = 0 \<and> unknown h = []"

lemma uartinit_inv: "console_off h \<Longrightarrow> console_inv (uartinit h)"
  by (simp add: console_off_def console_inv_def well_formed_def uartinit_def asked_def)

lemma uartinit_abs: "console_off h \<Longrightarrow> console_abs (w, uartinit h) =
    \<lparr>line = w, shown = out h, pending = keys h @ scheduled_keys (sched h), reading = False, prompt = (sched h = [])\<rparr>"
  by (simp add: console_off_def console_abs_def uartinit_def committed_def upcoming_def)

text \<open>
  C6: The console driver refines the abstract console, for every line discipline that keeps to the
  driver's output (\<open>obeys\<close>). From boot, any sequence of output calls and polls returns, whatever the pace
  of the host, and the line discipline, the characters shown and those still to be read evolve as the
  abstract console's: an output call shows exactly its characters, a poll hands over the next pending
  characters, at least one when a read command is waiting and the host is prompt.
\<close>

theorem console_refines:
  assumes "obeys consoleintr cook" "console_off h"
  shows "\<exists>w' h'. console_run consoleintr ps (w, uartinit h) = Some (w', h') \<and> console_inv h'
    \<and> console_trace cook ps \<lparr>line = w, shown = out h, pending = keys h @ scheduled_keys (sched h), reading = False,
        prompt = (sched h = [])\<rparr> (console_abs (w', h'))"
  using line_discipline.run_refines_console [OF obeys_discipline [OF assms(1)] uartinit_inv [OF assms(2)], of ps w]
  unfolding uartinit_abs [OF assms(2)] by blast

text \<open>
  C17: Nothing lost, nothing twice, nothing out of order, for every line discipline that keeps to the
  driver's output (\<open>obeys\<close>). From boot, after any sequence of output calls and polls, a prefix of what was
  typed has been handed to the line discipline, each character once and in order, and the rest of the
  input is still to come; the console shows an interleaving of all that was written and of what the line
  discipline showed for that prefix. With a prompt host one poll more than there are characters leaves
  none waiting, however output and polls are mixed.
\<close>

theorem console_lossless:
  assumes "obeys consoleintr cook" "console_off h"
  shows "\<exists>h' m zs. console_run consoleintr ps (w, uartinit h) =
        Some (fst (cooked cook w (take m (keys h @ scheduled_keys (sched h)))), h')
    \<and> upcoming h' = drop m (keys h @ scheduled_keys (sched h))
    \<and> committed h' = out h @ zs
    \<and> zs \<in> shuffles (written ps) (snd (cooked cook w (take m (keys h @ scheduled_keys (sched h)))))
    \<and> (sched h = [] \<and> length (keys h) < polls ps \<longrightarrow> upcoming h' = [])"
proof -
  obtain w' h' where h': "console_run consoleintr ps (w, uartinit h) = Some (w', h')"
    and trace: "console_trace cook ps (console_abs (w, uartinit h)) (console_abs (w', h'))"
    using line_discipline.run_refines_console [OF obeys_discipline [OF assms(1)] uartinit_inv [OF assms(2)], of ps w]
    by blast
  have "sched h = [] \<and> length (keys h) < polls ps \<longrightarrow> upcoming h' = []"
    using trace_drains [OF trace] by (auto simp: uartinit_abs [OF assms(2)]) (simp add: console_abs_def)
  moreover from trace_shuffles [OF trace] obtain m zs where "upcoming h' = drop m (keys h @ scheduled_keys (sched h))"
    "w' = fst (cooked cook w (take m (keys h @ scheduled_keys (sched h))))"
    "zs \<in> shuffles (written ps) (snd (cooked cook w (take m (keys h @ scheduled_keys (sched h)))))"
    "committed h' = out h @ zs"
    unfolding uartinit_abs [OF assms(2)] by (auto simp: console_abs_def)
  ultimately show ?thesis
    using h' by (intro exI [of _ h'] exI [of _ m] exI [of _ zs]) blast
qed

section \<open>Witnesses\<close>

lemma sample_console_off: "console_off (sample_console as)"
  by (simp add: console_off_def sample_console_def)

text \<open>The user types \<open>h\<close>, \<open>i\<close> and a delete; the line discipline edits a line.\<close>

theorem console_refines_witness:
  "\<exists>w' h'. console_run (line_by edit_line) [Putc 62, Tick, Write (\<lambda>i. of_nat (65 + i)) 2]
      ([], uartinit (sample_console [Pause, Key 127])) = Some (w', h')
    \<and> console_trace edit_line [Putc 62, Tick, Write (\<lambda>i. of_nat (65 + i)) 2]
        \<lparr>line = [], shown = [], pending = [104, 105, 127], reading = False, prompt = False\<rparr> (console_abs (w', h'))"
  using console_refines [OF line_by_obeys [of edit_line] sample_console_off [of "[Pause, Key 127]"], where w = "[]"
      and ps = "[Putc 62, Tick, Write (\<lambda>i. of_nat (65 + i)) 2]"]
  by (auto simp: sample_console_def)

theorem console_lossless_witness:
  "\<exists>h' zs. console_run (line_by edit_line) [Tick, Putc 62, Tick, Tick] ([], uartinit (sample_console [])) =
      Some ([105, 104], h')
    \<and> committed h' = zs \<and> zs \<in> shuffles [62] [104, 105] \<and> upcoming h' = []"
proof -
  obtain h' m zs where run: "console_run (line_by edit_line) [Tick, Putc 62, Tick, Tick] ([], uartinit (sample_console [])) =
        Some (fst (cooked edit_line [] (take m [104, 105])), h')"
    and h': "committed h' = zs" "zs \<in> shuffles [62] (snd (cooked edit_line [] (take m [104, 105])))"
      "upcoming h' = drop m [104, 105]" "upcoming h' = []"
    using console_lossless [OF line_by_obeys [of edit_line] sample_console_off [of "[]"], where w = "[]"
      and ps = "[Tick, Putc 62, Tick, Tick]"]
    by (auto simp: sample_console_def simp del: cooked.simps console_run.simps)
  from h'(3,4) have "take m [104, 105 :: u8] = [104, 105]"
    using append_take_drop_id [of m "[104, 105 :: u8]"] by simp
  then have "cooked edit_line [] (take m [104, 105]) = ([105, 104], [104, 105])" by simp
  with run h' show ?thesis by (intro exI [of _ h'] exI [of _ zs]) simp
qed

end
