(* ===== verification/HartLife.thy ===== *)
theory HartLife
  imports Start
begin

text \<open>
  The hart from \<open>start()\<close> on: traps of every kind, in any order, between stretches in which the kernel or a
  process does anything that software below M-mode can do. What \<open>start()\<close> and \<open>timerinit\<close> set up once
  serves every trap that ever comes.
\<close>

text \<open>
  Below M-mode no machine CSR can be written, and the kernel names \<open>timer_scratch\<close> nowhere but in
  \<open>timerinit\<close>. The registers, the supervisor's CSRs, the privilege, the devices and all other memory may
  change in any way.
\<close>

definition spares_machine :: "u64 \<Rightarrow> ctl \<Rightarrow> ctl \<Rightarrow> bool" where
  "spares_machine scratch c c' \<longleftrightarrow>
     mscratch (core c') = mscratch (core c) \<and> mtvec (core c') = mtvec (core c) \<and> mie (core c') = mie (core c)
   \<and> medeleg c' = medeleg c \<and> mideleg c' = mideleg c \<and> pmpaddr0 c' = pmpaddr0 c \<and> pmpcfg0 c' = pmpcfg0 c
   \<and> dmem (core c') (scratch + 24) = dmem (core c) (scratch + 24)
   \<and> dmem (core c') (scratch + 32) = dmem (core c) (scratch + 32)
   \<and> dmem (core c') (scratch + 40) = dmem (core c) (scratch + 40)"

inductive hart_life :: "u64 \<Rightarrow> ctl \<Rightarrow> ctl \<Rightarrow> bool" for scratch c where
  starts: "hart_life scratch c c"
| runs: "hart_life scratch c d \<Longrightarrow> spares_machine scratch d e \<Longrightarrow> hart_life scratch c e"
| traps: "hart_life scratch c d \<Longrightarrow> prv (core d) \<noteq> PrivM
    \<Longrightarrow> hart_life scratch c (d\<lparr>core := take_trap cause tval d\<rparr>)"

definition machine_inv :: "u64 \<Rightarrow> u64 \<Rightarrow> u64 \<Rightarrow> ctl \<Rightarrow> bool" where
  "machine_inv scratch cmp vec c \<longleftrightarrow>
     timer_ready scratch cmp (core c) \<and> mtvec (core c) = vec \<and> bit (mie (core c)) 7
   \<and> \<not> bit (mideleg c) 7 \<and> pmpaddr0 c = 0x3fffffffffffff \<and> pmpcfg0 c = 0xf"

lemma start_machine_inv:
  assumes "unat (mhartid (core c)) < 8" "0x80000000 \<le> unat ts" "unat ts < 0x88000000" "\<not> bit dint 7"
  shows "machine_inv (ts + 48 * mhartid (core c)) (CLINT_MTIMECMP (mhartid (core c))) vec (start dint ts vec c)"
proof -
  have "mideleg (start dint ts vec c) = 0xffff AND dint" "pmpaddr0 (start dint ts vec c) = 0x3fffffffffffff"
      "pmpcfg0 (start dint ts vec c) = 0xf"
    by (simp_all add: start_def w_medeleg_def w_mideleg_def Let_def)
  with timerinit_facts [OF assms(1-3), of vec] assms(4) show ?thesis
    by (simp add: machine_inv_def core_start bit_and_iff)
qed

lemma timervec_machine_csrs:
  "mtvec (timervec (m_trap cause tval s)) = mtvec s" "mie (timervec (m_trap cause tval s)) = mie s"
  by (auto simp: handler_simps reflect_eq rearm_eq)

lemma take_trap_machine_inv:
  assumes "machine_inv scratch cmp vec c"
  shows "machine_inv scratch cmp vec (c\<lparr>core := take_trap cause tval c\<rparr>)"
  using assms timervec_keeps [of scratch cmp "core c" cause tval] timervec_machine_csrs [of cause tval "core c"]
  by (auto simp: machine_inv_def take_trap_def) (auto simp: s_trap_def timer_ready_def)

lemma life_machine_inv:
  assumes "hart_life scratch c d" "machine_inv scratch cmp vec c"
  shows "machine_inv scratch cmp vec d"
  using assms
proof induction
  case (runs d e)
  then show ?case by (simp add: machine_inv_def spares_machine_def timer_ready_def)
qed (simp_all add: take_trap_machine_inv)

text \<open>
  C14: What \<open>start()\<close> set up serves every trap, for ever. After \<open>start()\<close>, whatever the kernel and the processes
  do and however many traps have been taken, a trap taken below M-mode reaches the supervisor as if it had
  been delegated unless it is the machine timer interrupt; that one returns to the interrupted code with
  only a supervisor software interrupt raised and the comparator one interval ahead. The machine
  timer stays enabled, its vector in place and all memory accessible to the supervisor.
\<close>

theorem every_trap_served:
  assumes "unat (mhartid (core c0)) < 8" "0x80000000 \<le> unat ts" "unat ts < 0x88000000" "\<not> bit dint 7"
    and "scratch = ts + 48 * mhartid (core c0)" "cmp = CLINT_MTIMECMP (mhartid (core c0))"
    and "hart_life scratch (start dint ts vec c0) c" "prv (core c) \<noteq> PrivM"
  shows "(\<not> is_mtimer cause \<longrightarrow>
      supervisor_equal (save_area scratch) (take_trap cause tval c) (s_trap cause tval (core c)))
    \<and> supervisor_equal (insert cmp (save_area scratch)) (take_trap 0x8000000000000007 tval c)
        ((core c)\<lparr>sip := put_bit 1 True (sip (core c))\<rparr>)
    \<and> dmem (take_trap 0x8000000000000007 tval c) cmp = dmem (core c) CLINT_MTIME + 25000
    \<and> mtvec (core c) = vec \<and> bit (mie (core c)) 7
    \<and> (unat a < 2 ^ 56 - 4 \<longrightarrow> pmp_allows_all c a)"
proof -
  have inv: "machine_inv scratch cmp vec c"
    using life_machine_inv [OF assms(7)] start_machine_inv [OF assms(1-4)] assms(5,6) by simp
  then have ready: "timer_ready scratch cmp (core c)" "mscratch (core c) = scratch"
    by (simp_all add: machine_inv_def timer_ready_def)
  have "take_trap 0x8000000000000007 tval c = timervec (m_trap 0x8000000000000007 tval (core c))"
    using inv mtimer_not_delegated by (simp add: take_trap_def machine_inv_def)
  moreover have "supervisor_equal (save_area scratch) (take_trap cause tval c) (s_trap cause tval (core c))"
    if "\<not> is_mtimer cause"
    using delegation_matches [OF assms(8) that, of tval] ready(2)
    by (auto simp: take_trap_def supervisor_equal_def)
  ultimately show ?thesis
    using inv timer_tick_equal [OF ready(1) machine_timer_cause] pmp_open by (simp add: machine_inv_def)
qed

text \<open>The kernel enters S-mode and takes a tick; the next exception, an illegal instruction, is served.\<close>

theorem every_trap_served_witness:
  "let c0 = start 0x222 0x80009000 0x80005100 reset_ctl;
       c1 = c0\<lparr>core := (core c0)\<lparr>prv := PrivS, pc := 0x80000100\<rparr>\<rparr>;
       c2 = c1\<lparr>core := take_trap 0x8000000000000007 0 c1\<rparr>
   in supervisor_equal (save_area 0x80009030) (take_trap 2 0 c2) (s_trap 2 0 (core c2)) \<and> bit (mie (core c2)) 7"
proof -
  define c0 where "c0 = start 0x222 0x80009000 0x80005100 reset_ctl"
  define c1 where "c1 = c0\<lparr>core := (core c0)\<lparr>prv := PrivS, pc := 0x80000100\<rparr>\<rparr>"
  define c2 where "c2 = c1\<lparr>core := take_trap 0x8000000000000007 0 c1\<rparr>"
  have hart: "mhartid (core reset_ctl) = 1" by (simp add: reset_ctl_def reset_hart_def)
  have nd: "\<not> bit (0x222 :: u64) 7" by code_simp
  have life1: "hart_life 0x80009030 c0 c1"
    by (rule hart_life.runs [OF hart_life.starts]) (simp add: c1_def spares_machine_def)
  have nm: "\<not> is_mtimer 2" by code_simp
  have served: "supervisor_equal (save_area 0x80009030) (take_trap 2 0 c) (s_trap 2 0 (core c)) \<and> bit (mie (core c)) 7
      \<and> prv (take_trap 0x8000000000000007 0 c) = prv (core c)"
    if "hart_life 0x80009030 c0 c" "prv (core c) \<noteq> PrivM" for c
    using every_trap_served [where ?c0.0 = reset_ctl and ts = "0x80009000" and dint = "0x222" and vec = "0x80005100"
        and scratch = "0x80009030" and cause = 2 and tval = 0 and a = 0, OF _ _ _ nd _ refl that(1) [unfolded c0_def] that(2)] nm
    by (simp add: hart supervisor_equal_def)
  have "prv (core c1) = PrivS" by (simp add: c1_def)
  then have "prv (core c2) = PrivS" using served [OF life1] by (simp add: c2_def)
  moreover have "hart_life 0x80009030 c0 c2"
    unfolding c2_def using \<open>prv (core c1) = PrivS\<close> by (intro hart_life.traps [OF life1]) simp
  ultimately have "supervisor_equal (save_area 0x80009030) (take_trap 2 0 c2) (s_trap 2 0 (core c2)) \<and> bit (mie (core c2)) 7"
    using served by simp
  then show ?thesis by (simp add: c0_def c1_def c2_def Let_def)
qed

end
