(* ===== verification/Spec2Isabelle.thy ===== *)
theory Spec2Isabelle
  imports Prelude KString Trap Blkdev Htif FsblRom FsblImage FsblBase FsblBoot FsblOutcome
    FsblRecovery FsblEnds HelloTest PlProbe HtifNested Start Tick Vm Kalloc
    MemoryPlan SendKernel SerialListen DiskPool ConsoleTrace HartLife
begin

text \<open>
  A verification library for the code of this repository: the port of xv6 to a Rocket Chip core on
  the PYNQ-Z1 (\<open>xv6/\<close>), the first stage boot loader of the ARM side (\<open>fsbl/\<close>), the two test programs
  (\<open>riscv-test/hello.c\<close>, \<open>tools/pl-probe.c\<close>), and the tools at the other end of the serial console.

  \<^bold>\<open>The system.\<close> The boot loader runs on the ARM cores, chooses a boot device, searches and loads an
  image and jumps to it, or falls back through the boot ROM. The Rocket core in the programmable
  logic runs xv6, which talks to a host program on the ARM side: its console goes through two words
  of memory (\<open>tohost\<close>, \<open>fromhost\<close>), its disk through a block device that does DMA. The core lacks
  several features xv6 expects, so the port takes every trap it cannot delegate in machine mode.

  \<^bold>\<open>Theories.\<close>
  \<^item> \<open>Prelude\<close>: words; \<open>spin\<close>, a loop polling a volatile location, and the locale \<open>poller\<close> (total
    correctness of such loops from a variant); the locale \<open>byte_store\<close> (contents of regions after
    byte-wise writes and copies).
  \<^item> \<open>KString\<close>: \<open>memset\<close> and \<open>memmove\<close> of the kernel (\<open>kernel/string.c\<close> in
    \<open>xv6/0001-xv6-rocket-port.patch\<close>), with 64-bit addresses, the 32-bit counter and misaligned
    doubleword accesses as traps. Functional correctness for every region, overlap and alignment, no
    misaligned access, and the one range of lengths for which \<open>memset\<close> never returns. The first lines
    of \<open>memmove\<close>, which the patch does not show, are taken to set \<open>s\<close> and \<open>d\<close> only.
  \<^item> \<open>Trap\<close>: the machine-mode handler \<open>timervec\<close> and its \<open>reflect\<close> path instruction by instruction
    (\<open>kernel/kernelvec.S\<close>), \<open>timerinit\<close> (\<open>kernel/start.c\<close>) and the new branch of \<open>devintr\<close>
    (\<open>kernel/trap.c\<close>), all in the patch. The reflected trap is compared with what the hardware's
    delegation would do; the timer path with the interrupted state.
  \<^item> \<open>Blkdev\<close>: the whole of \<open>xv6/blkdev.c\<close> over an abstract register interface, run against the
    register file its comment documents; the calls of \<open>kernel/bio.c\<close> and the layout of \<open>struct buf\<close>.
    The locale \<open>disk_driver\<close> is what the buffer cache relies on.
  \<^item> \<open>DiskPool\<close>: the driver under the port's buffer cache. The specification is a map of blocks and a list of
    buffers; the locale \<open>disk_pool\<close> extends \<open>disk_driver\<close> by what keeps buffers apart, and proves that any
    sequence of reads, writes and changes of buffers refines the specification. \<open>Blkdev\<close> and the layout of
    \<open>struct buf\<close> are its instance, for the block numbers whose end in sectors fits in 32 bits.
  \<^item> \<open>Htif\<close>: the whole of \<open>xv6/htif.c\<close> against a host that follows the protocol of its comment at
    any pace. \<open>consoleintr\<close> is a parameter with a state of its own; the locale \<open>line_discipline\<close> is what \<open>uartintr\<close>
    relies on of it: it returns, and what it shows (\<open>cook\<close>) it puts out through \<open>uartputc_sync\<close>. The properties
    hold for every \<open>consoleintr\<close> that does so (\<open>obeys\<close>), and \<open>line_by cook\<close> is one for any \<open>cook\<close>. An inductive
    step relation interleaves the kernel's calls with the host and the user.
  \<^item> \<open>ConsoleTrace\<close>: sequences of the entry points of \<open>Htif\<close> from boot, refining an abstract console; what
    is shown is an interleaving of what was written and what the line discipline showed for the keys typed, and
    the input is drained by polls.
  \<^item> \<open>HtifNested\<close>: \<open>htif_send\<close> load by load and store by store, shown to implement the function of
    \<open>Htif\<close>; a step relation in which interrupt handlers call it again at any point and to any depth;
    two harts that run it at once; a poll interrupted by a poll.
  \<^item> \<open>Start\<close>: \<open>start()\<close> from the delegation of traps to the timer, and which way each exception takes
    to the supervisor: delegated, or reflected by \<open>timervec\<close>. \<open>HartLife\<close> follows the hart from there through any
    sequence of traps and of stretches below M-mode, as an inductive relation with its invariant.
  \<^item> \<open>Tick\<close>: \<open>clockintr\<close> and the idle branch of \<open>scheduler\<close>, composed with \<open>Trap\<close> and \<open>Htif\<close>: how a key
    typed at the host reaches the line discipline through timer ticks and idle rounds.
  \<^item> \<open>Vm\<close>: page table entries as \<open>mappages\<close> writes them and as this core's walker reads them, the device
    mappings of \<open>kvmmake\<close>, the memory layout, and the window from the core's memory port to the DRAM of
    the board (\<open>board/src/verilog/rocketchip_wrapper.v\<close>).
  \<^item> \<open>Kalloc\<close>: \<open>kinit\<close> and \<open>kfree\<close> over \<open>memset\<close> of \<open>KString\<close> and the memory layout of \<open>Vm\<close>; \<open>freerange\<close> is a
    parameter with the hypothesis \<open>frees_in_turn\<close>.
  \<^item> \<open>MemoryPlan\<close>: the pages of \<open>Kalloc\<close> behind the window of \<open>Vm\<close> against the memory of Linux and u-boot
    (\<open>board/soft_config/\<close>, \<open>board/uEnv.txt\<close>).
  \<^item> \<open>FsblRom\<close>, \<open>FsblImage\<close>, \<open>FsblBase\<close>, \<open>FsblBoot\<close>, \<open>FsblOutcome\<close>, \<open>FsblRecovery\<close>, \<open>FsblEnds\<close>:
    \<open>fsbl/main.c\<close>. \<open>FsblRom\<close> has \<open>memcpy_rom\<close> and \<open>strcpy_rom\<close>; \<open>FsblImage\<close> the
    header checks and the image search; \<open>FsblBase\<close> the global variables, the history of register accesses and calls, and the calculus of weakest
    preconditions; \<open>FsblBoot\<close> one definition for each function, \<open>main\<close> in stages, and the guard that
    holds at every handover; \<open>FsblOutcome\<close> what the functions do when the hardware answers;
    \<open>FsblRecovery\<close> that the fallback through further images ends, and with which image; \<open>FsblEnds\<close> that
    \<open>main\<close> as a whole ends in a reset, the fallback hook or a handover, when the multiboot register can
    address the boot flash (on a larger flash the search for an image can loop for ever).
  \<^item> \<open>HelloTest\<close>: \<open>riscv-test/hello.c\<close> and its startup code \<open>riscv-test/crt.S\<close>.
  \<^item> \<open>PlProbe\<close>: \<open>tools/pl-probe.c\<close>.
  \<^item> \<open>SendKernel\<close>: \<open>tools/send-kernel.py\<close> as a history of the serial port, the terminal it types into, and
    base64; that a file arrives whole and is installed only when verified, and what the check before the
    transfer misses.
  \<^item> \<open>SerialListen\<close>: \<open>tools/serial-listen.py\<close> as a step relation of its threads; one reader for each node,
    and the exception that loses one.

  \<^bold>\<open>Parameters.\<close> What is not in the repository is a parameter: the upstream parts of xv6 (\<open>bget\<close>,
  \<open>holdingsleep\<close>, \<open>consoleintr\<close>, the counting in \<open>clockintr\<close>, \<open>walk\<close>,
  \<open>freerange\<close> and the free list, the block size), the Xilinx headers, drivers and hooks (the
  records \<open>config\<close> and \<open>env\<close>, whose answers may depend on the whole history and which may keep
  control for ever), the arithmetic of \<open>double\<close>, the effect of a DMA to an unaligned address, the
  compressor, the digest and the stripper of \<open>SendKernel\<close>. The devices on the other side of a
  protocol are modelled from the protocol's description in the source comments, with any finite delay.

  \<^bold>\<open>Loops and fuel.\<close> A loop that may not end is a \<open>partial_function\<close> whose value is \<open>None\<close> when it
  does not, and each property that a call returns says so. The only fuel is the depth of mutual calls
  between \<open>FsblFallback\<close> and \<open>FsblHandoff\<close>. With the AES key not in the fuses the fallback makes no
  further call, and any positive depth is enough; with the key in the fuses each level moves to a
  later image, and twice the number of offsets of the multiboot register is enough
  (\<open>FsblRecovery\<close>), one more for \<open>main\<close> (\<open>FsblEnds\<close>). The handover property holds for every depth.

  \<^bold>\<open>Not modelled.\<close> Debug output; the parts of \<open>start()\<close>, \<open>devintr\<close>, \<open>kvmmake\<close>, \<open>kalloc\<close> and
  \<open>scheduler\<close> that the patch leaves as they are and does not show; \<open>fsbl/stack_init_override.c\<close>, an empty function; the rest of the board's Verilog and
  Tcl, which connects generated components; the build scripts and \<open>tools/serial-drive.py\<close>,
  which are input and output only; the patches to u-boot, Linux and fesvr, whose functions are not in the
  repository.
\<close>

end
